theory Spec2Isabelle
  imports Complex_Main
begin

section \<open>KP chart classification: a shallow embedding of main.py\<close>

text \<open>
  The functions of main.py are modelled in exact real arithmetic: \<open>%\<close> and \<open>//\<close> on
  floats are the floored remainder and quotient, \<open>int\<close> truncates towards zero,
  \<open>round(x, 6)\<close> rounds half to even on the sixth decimal. Where a property depends on
  the rounding of the machine's binary64 arithmetic, the function is modelled a second
  time, under the same name with the suffix \<open>_f\<close>, with every operation rounded to the
  nearest binary64 value as the interpreter does it.
  Exceptions are values of \<open>py_error\<close>; a function that can raise returns \<open>py_error + 'a\<close>.
\<close>

subsection \<open>Python primitives\<close>

datatype py_error = ValueError | IndexError | KeyError | ZeroDivisionError

definition bind_err :: "py_error + 'a \<Rightarrow> ('a \<Rightarrow> py_error + 'b) \<Rightarrow> py_error + 'b" where
  "bind_err m f = (case m of Inl e \<Rightarrow> Inl e | Inr x \<Rightarrow> f x)"

definition py_mod :: "real \<Rightarrow> real \<Rightarrow> real" where
  \<comment> \<open>float \<open>a % b\<close> for \<open>b \<noteq> 0\<close>: the result has the sign of \<open>b\<close>\<close>
  "py_mod a b = a - b * of_int \<lfloor>a / b\<rfloor>"

definition py_floordiv :: "real \<Rightarrow> real \<Rightarrow> real" where
  \<comment> \<open>float \<open>a // b\<close> for \<open>b \<noteq> 0\<close>\<close>
  "py_floordiv a b = of_int \<lfloor>a / b\<rfloor>"

definition py_int :: "real \<Rightarrow> int" where
  \<comment> \<open>\<open>int(x)\<close> truncates towards zero\<close>
  "py_int x = (if 0 \<le> x then \<lfloor>x\<rfloor> else \<lceil>x\<rceil>)"

fun py_list_index :: "'a list \<Rightarrow> 'a \<Rightarrow> py_error + nat" where
  \<comment> \<open>\<open>xs.index(x)\<close>: position of the first occurrence, ValueError when absent\<close>
  "py_list_index [] x = Inl ValueError"
| "py_list_index (y # ys) x =
     (if y = x then Inr 0
      else (case py_list_index ys x of Inl e \<Rightarrow> Inl e | Inr n \<Rightarrow> Inr (Suc n)))"

definition py_getitem :: "'a list \<Rightarrow> int \<Rightarrow> py_error + 'a" where
  \<comment> \<open>\<open>xs[i]\<close>: a negative index counts from the end, IndexError out of range\<close>
  "py_getitem xs i =
     (let j = (if i < 0 then i + int (length xs) else i)
      in if j < 0 \<or> int (length xs) \<le> j then Inl IndexError else Inr (xs ! nat j))"

definition py_dict_getitem :: "('k \<times> 'v) list \<Rightarrow> 'k \<Rightarrow> py_error + 'v" where
  \<comment> \<open>\<open>d[k]\<close> on a dict literal: KeyError when the key is absent\<close>
  "py_dict_getitem d k = (case map_of d k of None \<Rightarrow> Inl KeyError | Some v \<Rightarrow> Inr v)"

subsection \<open>Configuration tables\<close>

definition VIM_ORDER :: "string list" where
  "VIM_ORDER = [''Ketu'', ''Venus'', ''Sun'', ''Moon'', ''Mars'', ''Rahu'', ''Jupiter'',
     ''Saturn'', ''Mercury'']"

definition VIM_YEARS :: "int list" where
  "VIM_YEARS = [7, 20, 6, 10, 7, 18, 16, 19, 17]"

definition VIM_PROP :: "real list" where
  "VIM_PROP = (let total = sum_list VIM_YEARS in map (\<lambda>y. of_int y / of_int total) VIM_YEARS)"

definition NAK_SHAPES :: "(string \<times> string) list" where
  "NAK_SHAPES =
    [(''Ashwini'', ''Ketu''), (''Bharani'', ''Venus''), (''Krittika'', ''Sun''),
     (''Rohini'', ''Moon''), (''Mrigashira'', ''Mars''), (''Ardra'', ''Rahu''),
     (''Punarvasu'', ''Jupiter''), (''Pushya'', ''Saturn''), (''Ashlesha'', ''Mercury''),
     (''Magha'', ''Ketu''), (''Purva Phalguni'', ''Venus''), (''Uttara Phalguni'', ''Sun''),
     (''Hasta'', ''Moon''), (''Chitra'', ''Mars''), (''Swati'', ''Rahu''),
     (''Vishakha'', ''Jupiter''), (''Anuradha'', ''Saturn''), (''Jyeshtha'', ''Mercury''),
     (''Mula'', ''Ketu''), (''Purva Ashadha'', ''Venus''), (''Uttara Ashadha'', ''Sun''),
     (''Shravana'', ''Moon''), (''Dhanishta'', ''Mars''), (''Shatabhisha'', ''Rahu''),
     (''Purva Bhadrapada'', ''Jupiter''), (''Uttara Bhadrapada'', ''Saturn''),
     (''Revati'', ''Mercury'')]"

definition SIGN_RULER :: "(int \<times> string) list" where
  "SIGN_RULER =
    [(1, ''Mars''), (2, ''Venus''), (3, ''Mercury''), (4, ''Moon''), (5, ''Sun''),
     (6, ''Mercury''), (7, ''Venus''), (8, ''Mars''), (9, ''Jupiter''), (10, ''Saturn''),
     (11, ''Saturn''), (12, ''Jupiter'')]"

definition SIGN_NAMES :: "string list" where
  "SIGN_NAMES = [''Aries'', ''Taurus'', ''Gemini'', ''Cancer'', ''Leo'', ''Virgo'', ''Libra'',
     ''Scorpio'', ''Sagittarius'', ''Capricorn'', ''Aquarius'', ''Pisces'']"

subsection \<open>normalize_angle\<close>

definition normalize_angle :: "real \<Rightarrow> real" where
  "normalize_angle a0 =
     (let a = py_mod a0 360 in
      if a < 0 then a + 360 else a)"

subsection \<open>sign_from_deg and get_nak_charan_and_pos\<close>

definition sign_from_deg :: "real \<Rightarrow> py_error + (int \<times> string)" where
  "sign_from_deg deg0 =
     (let deg = normalize_angle deg0;
          sign_idx = py_int (py_floordiv deg 30) + 1
      in bind_err (py_getitem SIGN_NAMES (sign_idx - 1)) (\<lambda>sign_name.
         Inr (sign_idx, sign_name)))"

definition get_nak_charan_and_pos ::
  "real \<Rightarrow> py_error + (int \<times> string \<times> string \<times> int \<times> real \<times> real)" where
  "get_nak_charan_and_pos sid_deg0 =
     (let sid_deg = py_mod sid_deg0 360;
          nak_size = 360 / 27;
          nak_index = py_int (py_floordiv sid_deg nak_size) + 1;
          nak_index = (if nak_index > 27 then 27 else nak_index)
      in bind_err (py_getitem NAK_SHAPES (nak_index - 1)) (\<lambda>(nak_name, nak_lord).
         let nak_start = of_int (nak_index - 1) * nak_size;
             pos_in_nak = sid_deg - nak_start;
             pos_in_nak = (if pos_in_nak < 0 then pos_in_nak + nak_size else pos_in_nak);
             pada_size = nak_size / 4;
             charan = py_int (py_floordiv pos_in_nak pada_size) + 1;
             charan = (if charan > 4 then 4 else charan)
         in Inr (nak_index, nak_name, nak_lord, charan, pos_in_nak, nak_size)))"

subsection \<open>find_sub_lord_recursive\<close>

definition rotate_from :: "nat \<Rightarrow> 'a list \<Rightarrow> 'a list" where
  \<comment> \<open>\<open>xs[idx:] + xs[:idx]\<close>\<close>
  "rotate_from idx xs = drop idx xs @ take idx xs"

text \<open>
  The inner \<open>for lord, prop in zip(order, props)\<close>: the result is the entry at which the
  loop breaks, with the value of \<open>cumulative\<close> there, or \<open>None\<close> when the loop runs to
  its end without a break.
\<close>

fun sub_lord_scan :: "real \<Rightarrow> real \<Rightarrow> (string \<times> real) list \<Rightarrow> (string \<times> real \<times> real) option" where
  "sub_lord_scan cur_pos cumulative [] = None"
| "sub_lord_scan cur_pos cumulative ((lord, prop) # rest) =
     (let next_cum = cumulative + prop
      in if cur_pos \<le> next_cum \<or> \<bar>cur_pos - 1\<bar> < 1 / 10 ^ 9
         then Some (lord, cumulative, prop)
         else sub_lord_scan cur_pos next_cum rest)"

text \<open>
  The outer \<open>for _ in range(levels)\<close> over the loop state
  \<open>(lords, cur_pos, order, props)\<close>. A level whose scan does not break leaves the state as
  it is.
\<close>

fun sub_lord_levels ::
  "nat \<Rightarrow> string list \<times> real \<times> string list \<times> real list
     \<Rightarrow> py_error + (string list \<times> real \<times> string list \<times> real list)" where
  "sub_lord_levels 0 st = Inr st"
| "sub_lord_levels (Suc n) (lords, cur_pos, order, props) =
     (case sub_lord_scan cur_pos 0 (zip order props) of
        None \<Rightarrow> sub_lord_levels n (lords, cur_pos, order, props)
      | Some (lord, cumulative, prop) \<Rightarrow>
          if prop = 0 then Inl ZeroDivisionError
          else bind_err (py_list_index VIM_ORDER lord) (\<lambda>idx2.
               sub_lord_levels n (lords @ [lord], (cur_pos - cumulative) / prop,
                                  rotate_from idx2 VIM_ORDER, rotate_from idx2 VIM_PROP)))"

definition find_sub_lord_recursive ::
  "real \<Rightarrow> real \<Rightarrow> string \<Rightarrow> nat \<Rightarrow> py_error + string list" where
  "find_sub_lord_recursive pos_in_nak_deg nak_size nak_lord levels =
     bind_err (py_list_index VIM_ORDER nak_lord) (\<lambda>idx.
       let order = rotate_from idx VIM_ORDER;
           props = rotate_from idx VIM_PROP
       in if nak_size = 0 then Inl ZeroDivisionError
          else bind_err (sub_lord_levels levels ([], pos_in_nak_deg / nak_size, order, props))
                 (\<lambda>(lords, cur_pos, order, props). Inr lords))"

text \<open>
  The shape of the loop state at each level: \<open>order\<close> and \<open>props\<close> are the two tables
  rotated by one and the same index.
\<close>

definition vim_state :: "string list \<times> real \<times> string list \<times> real list \<Rightarrow> bool" where
  "vim_state st = (case st of (lords, cur_pos, order, props) \<Rightarrow>
     \<exists>i < 9. order = rotate_from i VIM_ORDER \<and> props = rotate_from i VIM_PROP)"

subsection \<open>is_retrograde\<close>

text \<open>
  \<open>swe.calc_ut\<close> belongs to the external ephemeris library; it is a parameter \<open>calc_ut\<close>
  giving the longitude of body \<open>pconst\<close> at Julian day \<open>jd\<close>.
\<close>

definition is_retrograde :: "(real \<Rightarrow> nat \<Rightarrow> real) \<Rightarrow> real \<Rightarrow> nat \<Rightarrow> real \<Rightarrow> bool" where
  "is_retrograde calc_ut jd pconst delta_days =
     (let lon1 = calc_ut jd pconst;
          lon2 = calc_ut (jd + delta_days) pconst;
          d = normalize_angle (lon2 - lon1);
          d = (if d > 180 then d - 360 else d)
      in d < 0)"

subsection \<open>compute_kp_json: the planet records\<close>

definition py_round :: "real \<Rightarrow> nat \<Rightarrow> real" where
  \<comment> \<open>\<open>round(x, ndigits)\<close>: to the nearest multiple of \<open>10 ^ -ndigits\<close>, a tie to the even one\<close>
  "py_round x ndigits =
     (let y = x * 10 ^ ndigits;
          f = \<lfloor>y\<rfloor>;
          r = y - of_int f;
          n = (if r < 1 / 2 then f else if 1 / 2 < r then f + 1
               else if even f then f else f + 1)
      in of_int n / 10 ^ ndigits)"

text \<open>
  The bodies asked of the ephemeris. The first components are the body numbers of the
  external ephemeris library (\<open>swe.SUN\<close> \<dots> \<open>swe.SATURN\<close>, \<open>swe.MEAN_NODE\<close>).
\<close>

definition PLANETS :: "(nat \<times> string) list" where
  "PLANETS = [(0, ''Sun''), (1, ''Moon''), (2, ''Mercury''), (3, ''Venus''), (4, ''Mars''),
     (5, ''Jupiter''), (6, ''Saturn''), (10, ''Rahu'')]"

record planet_record =
  planet_name :: string
  planet_id :: int
  full_degree :: real
  norm_degree :: real
  is_retro :: bool
  sign_id :: int
  sign_name :: string
  sign_lord :: string
  house :: int
  house_lord :: string
  nakshatra_name :: string
  nakshatra_id :: int
  nakshatra_lord :: string
  nakshatra_charan :: int
  sub_lord :: string
  sub_sub_lord :: "string option"
  sub_sub_sub_lord :: "string option"

definition cusp_list_of :: "real list \<Rightarrow> py_error + real list" where
  \<comment> \<open>the 12 cusps out of what \<open>swe.houses\<close> returned (13 entries with a leading dummy, or 12)\<close>
  "cusp_list_of cusps =
     (if length cusps = 13 then Inr (map (\<lambda>i. cusps ! i) [1..<13])
      else if length cusps = 12 then Inr (map (\<lambda>i. cusps ! i) [0..<12])
      else Inl ValueError)"

text \<open>
  The house loop \<open>for i in range(12)\<close>, over the indices still to visit; \<open>cusp_list\<close> is
  always the 12-element result of \<open>cusp_list_of\<close>, so its reads are in range.
\<close>

fun house_scan :: "real \<Rightarrow> real list \<Rightarrow> real \<Rightarrow> nat list \<Rightarrow> int option" where
  "house_scan ayanamsha cusp_list pdeg [] = None"
| "house_scan ayanamsha cusp_list pdeg (i # rest) =
     (let start = normalize_angle (cusp_list ! i - ayanamsha);
          end' = normalize_angle (cusp_list ! ((i + 1) mod 12) - ayanamsha)
      in if start \<le> end'
         then (if start \<le> pdeg \<and> pdeg < end' then Some (int i + 1)
               else house_scan ayanamsha cusp_list pdeg rest)
         else (if start \<le> pdeg \<or> pdeg < end' then Some (int i + 1)
               else house_scan ayanamsha cusp_list pdeg rest))"

definition locate_house :: "real \<Rightarrow> real list \<Rightarrow> real \<Rightarrow> int" where
  "locate_house ayanamsha cusp_list pdeg =
     (case house_scan ayanamsha cusp_list pdeg [0..<12] of None \<Rightarrow> 12 | Some house_no \<Rightarrow> house_no)"

text \<open>
  The membership test of the specification: a longitude lies in the circular interval from
  \<open>start\<close> to \<open>end'\<close>; house \<open>i + 1\<close> is the interval from cusp \<open>i\<close> to cusp
  \<open>(i + 1) mod 12\<close>, both taken sidereal.
\<close>

definition spec_in_interval :: "real \<Rightarrow> real \<Rightarrow> real \<Rightarrow> bool" where
  "spec_in_interval start end' longitude =
     (if start \<le> end' then start \<le> longitude \<and> longitude < end'
      else start \<le> longitude \<or> longitude < end')"

definition spec_house_matches :: "real \<Rightarrow> real list \<Rightarrow> real \<Rightarrow> nat \<Rightarrow> bool" where
  "spec_house_matches ayanamsha cusp_list longitude i =
     spec_in_interval (normalize_angle (cusp_list ! i - ayanamsha))
       (normalize_angle (cusp_list ! ((i + 1) mod 12) - ayanamsha)) longitude"

definition house_lord_of :: "real \<Rightarrow> real list \<Rightarrow> int \<Rightarrow> py_error + string" where
  "house_lord_of ayanamsha cusp_list house_no =
     bind_err (py_getitem cusp_list (house_no - 1)) (\<lambda>cusp.
       py_dict_getitem SIGN_RULER (py_int (py_floordiv (normalize_angle (cusp - ayanamsha)) 30) + 1))"

definition sub_lord_fields :: "string list \<Rightarrow> py_error + (string \<times> string option \<times> string option)" where
  \<comment> \<open>the entries \<open>sub_lord\<close>, \<open>sub_sub_lord\<close>, \<open>sub_sub_sub_lord\<close> of a record\<close>
  "sub_lord_fields sub_lords =
     bind_err (py_getitem sub_lords 0) (\<lambda>s0.
       Inr (s0,
            if 1 < length sub_lords then Some (sub_lords ! 1) else None,
            if 2 < length sub_lords then Some (sub_lords ! 2) else None))"

text \<open>
  One pass of the loop over \<open>PLANETS\<close>. The ephemeris is a parameter: \<open>calc_ut\<close> gives the
  tropical longitude of a body, \<open>cusps\<close> is the cusp sequence of \<open>swe.houses\<close>,
  \<open>ayanamsha\<close> the value of \<open>swe.get_ayanamsa_ut\<close>.
\<close>

definition planet_entry ::
  "(real \<Rightarrow> nat \<Rightarrow> real) \<Rightarrow> real list \<Rightarrow> real \<Rightarrow> real \<Rightarrow> nat \<Rightarrow> string \<Rightarrow> py_error + planet_record" where
  "planet_entry calc_ut cusps ayanamsha JD pconst pname =
     (let tropical_lon = normalize_angle (calc_ut JD pconst);
          sid_lon = normalize_angle (tropical_lon - ayanamsha)
      in bind_err (sign_from_deg sid_lon) (\<lambda>(sign_id', sign_name').
         bind_err (py_dict_getitem SIGN_RULER sign_id') (\<lambda>sign_lord'.
         bind_err (get_nak_charan_and_pos sid_lon)
           (\<lambda>(nak_idx, nak_name, nak_lord, charan, pos_in_nak, nak_size).
         bind_err (find_sub_lord_recursive pos_in_nak nak_size nak_lord 3) (\<lambda>sub_lords.
         let retro = is_retrograde calc_ut JD pconst 2
         in bind_err (cusp_list_of cusps) (\<lambda>cusp_list.
         let house_no = locate_house ayanamsha cusp_list sid_lon
         in bind_err (py_list_index (map snd PLANETS) pname) (\<lambda>pid.
         bind_err (house_lord_of ayanamsha cusp_list house_no) (\<lambda>house_lord'.
         bind_err (sub_lord_fields sub_lords) (\<lambda>(s0, s1, s2).
         Inr \<lparr>planet_name = pname, planet_id = int pid,
              full_degree = py_round sid_lon 6,
              norm_degree = py_round (py_mod sid_lon 30) 6,
              is_retro = retro,
              sign_id = sign_id', sign_name = sign_name', sign_lord = sign_lord',
              house = house_no, house_lord = house_lord',
              nakshatra_name = nak_name, nakshatra_id = nak_idx,
              nakshatra_lord = nak_lord, nakshatra_charan = charan,
              sub_lord = s0, sub_sub_lord = s1, sub_sub_sub_lord = s2\<rparr>)))))))))"

text \<open>
  The Ketu record, built from the Rahu record already in the output. \<open>cusp_list\<close> is the
  variable left by the planet loop, that is \<open>cusp_list_of cusps\<close> again.
\<close>

definition ketu_entry :: "real list \<Rightarrow> real \<Rightarrow> planet_record \<Rightarrow> py_error + planet_record" where
  "ketu_entry cusps ayanamsha rahu =
     (let ketu_sid_lon = normalize_angle (full_degree rahu + 180)
      in bind_err (sign_from_deg ketu_sid_lon) (\<lambda>(sign_id', sign_name').
         bind_err (py_dict_getitem SIGN_RULER sign_id') (\<lambda>sign_lord'.
         bind_err (get_nak_charan_and_pos ketu_sid_lon)
           (\<lambda>(nak_idx, nak_name, nak_lord, charan, pos_in_nak, nak_size).
         bind_err (find_sub_lord_recursive pos_in_nak nak_size nak_lord 3) (\<lambda>sub_lords.
         bind_err (cusp_list_of cusps) (\<lambda>cusp_list.
         let house_no = locate_house ayanamsha cusp_list ketu_sid_lon
         in bind_err (house_lord_of ayanamsha cusp_list house_no) (\<lambda>house_lord'.
         bind_err (sub_lord_fields sub_lords) (\<lambda>(s0, s1, s2).
         Inr \<lparr>planet_name = ''Ketu'', planet_id = 100,
              full_degree = py_round ketu_sid_lon 6,
              norm_degree = py_round (py_mod ketu_sid_lon 30) 6,
              is_retro = is_retro rahu,
              sign_id = sign_id', sign_name = sign_name', sign_lord = sign_lord',
              house = house_no, house_lord = house_lord',
              nakshatra_name = nak_name, nakshatra_id = nak_idx,
              nakshatra_lord = nak_lord, nakshatra_charan = charan,
              sub_lord = s0, sub_sub_lord = s1, sub_sub_sub_lord = s2\<rparr>))))))))"

fun planets_loop ::
  "(real \<Rightarrow> nat \<Rightarrow> real) \<Rightarrow> real list \<Rightarrow> real \<Rightarrow> real \<Rightarrow> (nat \<times> string) list
     \<Rightarrow> planet_record list \<Rightarrow> py_error + planet_record list" where
  "planets_loop calc_ut cusps ayanamsha JD [] out = Inr out"
| "planets_loop calc_ut cusps ayanamsha JD ((pconst, pname) # rest) out =
     bind_err (planet_entry calc_ut cusps ayanamsha JD pconst pname) (\<lambda>r.
       planets_loop calc_ut cusps ayanamsha JD rest (out @ [r]))"

definition compute_kp_planets ::
  "(real \<Rightarrow> nat \<Rightarrow> real) \<Rightarrow> real list \<Rightarrow> real \<Rightarrow> real \<Rightarrow> py_error + planet_record list" where
  \<comment> \<open>the \<open>'planets'\<close> entry of the result of \<open>compute_kp_json\<close>\<close>
  "compute_kp_planets calc_ut cusps ayanamsha JD =
     bind_err (planets_loop calc_ut cusps ayanamsha JD PLANETS []) (\<lambda>planets.
       case find (\<lambda>p. planet_name p = ''Rahu'') planets of
         None \<Rightarrow> Inr planets
       | Some rahu \<Rightarrow>
           bind_err (ketu_entry cusps ayanamsha rahu) (\<lambda>ketu. Inr (planets @ [ketu])))"

subsection \<open>Binary64 arithmetic\<close>

text \<open>
  A finite binary64 value is a real \<open>k * 2 ^ e\<close> with \<open>\<bar>k\<bar> < 2 ^ 53\<close> and
  \<open>e \<ge> -1074\<close>. \<open>binade x\<close> is the exponent of the binade of \<open>x\<close>, the least one
  for zero and subnormal values; \<open>rnd\<close> rounds to the nearest value of that binade's grid, a
  tie to the even one. Overflow to infinity (magnitudes of \<open>2 ^ 1024\<close> and above), NaN
  and the sign of zero are not modelled.
\<close>

definition round_half_even :: "real \<Rightarrow> int" where
  "round_half_even y =
     (let f = \<lfloor>y\<rfloor>; r = y - of_int f
      in if r < 1 / 2 then f else if 1 / 2 < r then f + 1 else if even f then f else f + 1)"

definition binade :: "real \<Rightarrow> int" where
  "binade x =
     (case find (\<lambda>e. \<bar>x\<bar> < 2 powi (e + 1)) [- 1022..1023] of Some e \<Rightarrow> e | None \<Rightarrow> 1023)"

definition rnd :: "real \<Rightarrow> real" where
  "rnd x = (let q = 2 powi (binade x - 52) in of_int (round_half_even (x / q)) * q)"


definition fadd :: "real \<Rightarrow> real \<Rightarrow> real" where
  "fadd a b = rnd (a + b)"

definition fsub :: "real \<Rightarrow> real \<Rightarrow> real" where
  "fsub a b = rnd (a - b)"

definition fmul :: "real \<Rightarrow> real \<Rightarrow> real" where
  "fmul a b = rnd (a * b)"

definition fdiv :: "real \<Rightarrow> real \<Rightarrow> real" where
  \<comment> \<open>for \<open>b \<noteq> 0\<close>\<close>
  "fdiv a b = rnd (a / b)"

definition c_fmod :: "real \<Rightarrow> real \<Rightarrow> real" where
  \<comment> \<open>the C library's \<open>fmod\<close> for \<open>b \<noteq> 0\<close>: exact, with the sign of \<open>a\<close>\<close>
  "c_fmod a b = a - b * of_int (py_int (a / b))"

text \<open>
  Float \<open>a % b\<close> and \<open>a // b\<close> as the interpreter computes them (for \<open>b \<noteq> 0\<close>): from
  \<open>fmod\<close>, shifted by \<open>b\<close> when the signs differ; the quotient is
  \<open>(a - mod) / b\<close>, floored, and moved up by one when the floor is more than a half away.
\<close>

definition py_mod_f :: "real \<Rightarrow> real \<Rightarrow> real" where
  "py_mod_f a b =
     (let m = c_fmod a b
      in if m \<noteq> 0 then (if (b < 0) \<noteq> (m < 0) then fadd m b else m) else 0)"

definition py_floordiv_f :: "real \<Rightarrow> real \<Rightarrow> real" where
  "py_floordiv_f a b =
     (let m = c_fmod a b;
          d = fdiv (fsub a m) b;
          d = (if m \<noteq> 0 \<and> (b < 0) \<noteq> (m < 0) then fsub d 1 else d)
      in if d \<noteq> 0
         then (let fl = of_int \<lfloor>d\<rfloor> in if 1 / 2 < fsub d fl then fadd fl 1 else fl)
         else 0)"

definition py_round_f :: "real \<Rightarrow> nat \<Rightarrow> real" where
  \<comment> \<open>\<open>round(x, ndigits)\<close>: the decimal nearest to the exact value of \<open>x\<close>, read back as a float\<close>
  "py_round_f x ndigits = rnd (of_int (round_half_even (x * 10 ^ ndigits)) / 10 ^ ndigits)"

definition normalize_angle_f :: "real \<Rightarrow> real" where
  "normalize_angle_f a0 =
     (let a = py_mod_f a0 360 in
      if a < 0 then fadd a 360 else a)"

definition get_nak_charan_and_pos_f ::
  "real \<Rightarrow> py_error + (int \<times> string \<times> string \<times> int \<times> real \<times> real)" where
  "get_nak_charan_and_pos_f sid_deg0 =
     (let sid_deg = py_mod_f sid_deg0 360;
          nak_size = fdiv 360 27;
          nak_index = py_int (py_floordiv_f sid_deg nak_size) + 1;
          nak_index = (if nak_index > 27 then 27 else nak_index)
      in bind_err (py_getitem NAK_SHAPES (nak_index - 1)) (\<lambda>(nak_name, nak_lord).
         let nak_start = fmul (of_int (nak_index - 1)) nak_size;
             pos_in_nak = fsub sid_deg nak_start;
             pos_in_nak = (if pos_in_nak < 0 then fadd pos_in_nak nak_size else pos_in_nak);
             pada_size = fdiv nak_size 4;
             charan = py_int (py_floordiv_f pos_in_nak pada_size) + 1;
             charan = (if charan > 4 then 4 else charan)
         in Inr (nak_index, nak_name, nak_lord, charan, pos_in_nak, nak_size)))"



text \<open>
  The longitude of Ketu in the Ketu block of \<open>compute_kp_json\<close>: \<open>ketu_sid_lon\<close> is what
  the block computes from Rahu's recorded longitude and classifies,
  \<open>ketu_full_degree\<close> is what it stores in the record.
\<close>

definition ketu_sid_lon_f :: "real \<Rightarrow> real" where
  "ketu_sid_lon_f rahu_full_degree = normalize_angle_f (fadd rahu_full_degree 180)"

definition ketu_full_degree_f :: "real \<Rightarrow> real" where
  "ketu_full_degree_f rahu_full_degree = py_round_f (ketu_sid_lon_f rahu_full_degree) 6"

section \<open>Properties\<close>

subsection \<open>Angle normalisation\<close>

lemma py_mod_360_bounds: "0 \<le> py_mod x 360 \<and> py_mod x 360 < 360"
proof -
  have "of_int \<lfloor>x / 360\<rfloor> \<le> x / 360" by (rule of_int_floor_le)
  moreover have "x / 360 < of_int \<lfloor>x / 360\<rfloor> + 1" by linarith
  ultimately show ?thesis unfolding py_mod_def by (simp add: field_simps)
qed

lemma normalize_angle_eq: "normalize_angle x = py_mod x 360"
  using py_mod_360_bounds [of x] by (simp add: normalize_angle_def Let_def)

lemma normalize_angle_bounds: "0 \<le> normalize_angle x \<and> normalize_angle x < 360"
  using py_mod_360_bounds [of x] by (simp add: normalize_angle_eq)

lemma normalize_angle_id: "0 \<le> x \<Longrightarrow> x < 360 \<Longrightarrow> normalize_angle x = x"
proof -
  assume a: "0 \<le> x" "x < 360"
  have "\<lfloor>x / 360\<rfloor> = 0" by (rule floor_unique) (use a in simp_all)
  then show ?thesis by (simp add: normalize_angle_eq py_mod_def)
qed

lemma normalize_angle_nonneg: "0 \<le> normalize_angle x"
  using normalize_angle_bounds [of x] by simp

subsection \<open>Evaluating binary64 operations\<close>

lemma find_upto_first:
  assumes "lo \<le> e" "e \<le> hi" "P e" "\<And>k. lo \<le> k \<Longrightarrow> k < e \<Longrightarrow> \<not> P k"
  shows "find P [lo..hi] = Some e"
proof -
  define i where "i = nat (e - lo)"
  have i: "i < length [lo..hi]" using assms(1,2) by (simp add: i_def)
  have ei: "[lo..hi] ! i = e" using assms(1,2) by (simp add: i_def nth_upto)
  have "\<not> P ([lo..hi] ! j)" if "j < i" for j
  proof -
    from that assms(1,2) have "lo + int j \<le> hi" "lo + int j < e" by (simp_all add: i_def)
    then show ?thesis using assms(4) [of "lo + int j"] by (simp add: nth_upto)
  qed
  then show ?thesis
    unfolding find_Some_iff using i ei assms(3) by (intro exI [of _ i]) simp
qed

lemma binade_eq:
  assumes "- 1022 \<le> e" "e \<le> 1023" "\<bar>x\<bar> < 2 powi (e + 1)" "e = - 1022 \<or> 2 powi e \<le> \<bar>x\<bar>"
  shows "binade x = e"
proof -
  have "\<not> \<bar>x\<bar> < 2 powi (k + 1)" if "- 1022 \<le> k" "k < e" for k
  proof -
    from that assms(4) have "2 powi e \<le> \<bar>x\<bar>" by auto
    moreover have "(2 :: real) powi (k + 1) \<le> 2 powi e"
      using that(2) by (intro power_int_increasing) simp_all
    ultimately show ?thesis by linarith
  qed
  with assms(1,2,3) have "find (\<lambda>e. \<bar>x\<bar> < 2 powi (e + 1)) [- 1022..1023] = Some e"
    by (intro find_upto_first) simp_all
  then show ?thesis unfolding binade_def by (simp only: option.case)
qed

text \<open>The value of \<open>rnd\<close> once the binade of the argument is known.\<close>

lemma rnd_eq:
  assumes "- 1022 \<le> e" "e \<le> 1023" "\<bar>x\<bar> < 2 powi (e + 1)" "e = - 1022 \<or> 2 powi e \<le> \<bar>x\<bar>"
  shows "rnd x = of_int (round_half_even (x / 2 powi (e - 52))) * 2 powi (e - 52)"
  using binade_eq [OF assms] by (simp add: rnd_def Let_def)

lemma rnd_0: "rnd 0 = 0"
  by (subst rnd_eq [of "- 1022"]) (simp_all add: round_half_even_def Let_def)

lemma py_mod_f_keep:
  assumes "c_fmod a b = m" "m \<noteq> 0" "(b < 0) = (m < 0)"
  shows "py_mod_f a b = m"
  using assms by (simp add: py_mod_f_def Let_def)

lemma py_mod_f_shift:
  assumes "c_fmod a b = m" "m \<noteq> 0" "(b < 0) \<noteq> (m < 0)" "fadd m b = r"
  shows "py_mod_f a b = r"
  using assms by (simp add: py_mod_f_def Let_def)

lemma py_mod_f_zero:
  assumes "c_fmod a b = 0"
  shows "py_mod_f a b = 0"
  using assms by (simp add: py_mod_f_def Let_def)

lemma py_floordiv_f_trace:
  assumes "c_fmod a b = m" "m = 0 \<or> (b < 0) = (m < 0)" "fsub a m = t" "fdiv t b = d"
    "d \<noteq> 0" "of_int \<lfloor>d\<rfloor> = fl" "fsub d fl = r" "r \<le> 1 / 2"
  shows "py_floordiv_f a b = fl"
  using assms by (auto simp add: py_floordiv_f_def Let_def)

lemma get_nak_f_trace:
  assumes "py_mod_f x 360 = sid" "fdiv 360 27 = ns" "py_floordiv_f sid ns = q"
    "py_int q + 1 = idx" "idx \<le> 27" "py_getitem NAK_SHAPES (idx - 1) = Inr (nm, ld)"
    "fmul (of_int (idx - 1)) ns = st" "fsub sid st = pos" "0 \<le> pos" "fdiv ns 4 = pada"
    "py_floordiv_f pos pada = q2" "py_int q2 + 1 = ch" "ch \<le> 4"
  shows "get_nak_charan_and_pos_f x = Inr (idx, nm, ld, ch, pos, ns)"
  using assms by (simp add: get_nak_charan_and_pos_f_def Let_def bind_err_def)

subsection \<open>Rounding in general\<close>
















subsection \<open>Angle normalisation in binary64\<close>

lemma normalize_angle_f_tiny:
  assumes m: "c_fmod x 360 = x" and x: "x < 0" and r: "fadd x 360 = 360"
  shows "normalize_angle_f x = 360"
proof -
  have "py_mod_f x 360 = 360"
    by (rule py_mod_f_shift [OF m _ _ r]) (use x in simp_all)
  then show ?thesis by (simp add: normalize_angle_f_def)
qed

lemma normalize_angle_f_360: "normalize_angle_f 360 = 0"
proof -
  have "c_fmod 360 360 = 0" by (simp add: c_fmod_def py_int_def)
  then have "py_mod_f 360 360 = 0" by (rule py_mod_f_zero)
  then show ?thesis by (simp add: normalize_angle_f_def)
qed

text \<open>
  C4: the claim is that \<open>normalize_angle\<close> never returns 360 and is idempotent. In
  binary64 the remainder of a tiny negative angle is that angle, and adding 360 to it
  rounds to 360: for \<open>-2^-70\<close> and for the float \<open>-1e-20\<close> the code returns 360, and
  normalising that result again gives 0, another value.
\<close>

theorem C4_normalize_angle_returns_360:
  "normalize_angle_f (- (1 / 2 ^ 70)) = 360
   \<and> normalize_angle_f (normalize_angle_f (- (1 / 2 ^ 70))) = 0
   \<and> rnd (- (1 / 10 ^ 20)) = - (6646139978924579 / 2 ^ 119)
   \<and> normalize_angle_f (rnd (- (1 / 10 ^ 20))) = 360
   \<and> normalize_angle_f (normalize_angle_f (rnd (- (1 / 10 ^ 20)))) = 0"
proof -
  have m1: "c_fmod (- (1 / 2 ^ 70)) 360 = - (1 / 2 ^ 70)"
    by (simp add: c_fmod_def py_int_def ceiling_def)
  have r1: "fadd (- (1 / 2 ^ 70)) 360 = 360"
    unfolding fadd_def by (subst rnd_eq [of 8]) (simp_all add: round_half_even_def Let_def)
  have a: "normalize_angle_f (- (1 / 2 ^ 70)) = 360"
    by (rule normalize_angle_f_tiny [OF m1 _ r1]) simp
  have t: "rnd (- (1 / 10 ^ 20)) = - (6646139978924579 / 2 ^ 119)"
    by (subst rnd_eq [of "- 67"]) (simp_all add: round_half_even_def Let_def)
  have m2: "c_fmod (- (6646139978924579 / 2 ^ 119)) 360 = - (6646139978924579 / 2 ^ 119)"
    by (simp add: c_fmod_def py_int_def ceiling_def)
  have r2: "fadd (- (6646139978924579 / 2 ^ 119)) 360 = 360"
    unfolding fadd_def by (subst rnd_eq [of 8]) (simp_all add: round_half_even_def Let_def)
  have b: "normalize_angle_f (- (6646139978924579 / 2 ^ 119)) = 360"
    by (rule normalize_angle_f_tiny [OF m2 _ r2]) simp
  show ?thesis unfolding t a b using t normalize_angle_f_360 by simp
qed

subsection \<open>Retrograde test\<close>

lemma is_retrograde_iff:
  "is_retrograde calc_ut jd pconst delta_days =
     (180 < normalize_angle (calc_ut (jd + delta_days) pconst - calc_ut jd pconst)
      \<and> normalize_angle (calc_ut (jd + delta_days) pconst - calc_ut jd pconst) < 360)"
  using normalize_angle_nonneg [of "calc_ut (jd + delta_days) pconst - calc_ut jd pconst"]
  by (auto simp add: is_retrograde_def Let_def)




text \<open>
  C10: when the normalised difference of the two samples is exactly 180, the test answers
  false: half a circle counts as direct motion.
\<close>

theorem C10_half_circle_is_direct:
  "normalize_angle (calc_ut (jd + delta_days) pconst - calc_ut jd pconst) = 180
   \<Longrightarrow> \<not> is_retrograde calc_ut jd pconst delta_days"
  by (simp add: is_retrograde_iff)

theorem C10_half_circle_is_direct_witness:
  "normalize_angle ((\<lambda>t p. t) ((0::real) + 180) (0::nat) - (\<lambda>t p. t) (0::real) (0::nat)) = 180
   \<and> \<not> is_retrograde (\<lambda>t p. t) 0 0 180"
proof -
  have h: "normalize_angle ((\<lambda>t p. t) ((0::real) + 180) (0::nat) - (\<lambda>t p. t) (0::real) (0::nat)) = 180"
    by (simp add: normalize_angle_id)
  from C10_half_circle_is_direct [of "\<lambda>t p. t" 0 180 0, OF h] h show ?thesis by blast
qed

subsection \<open>The sub-lord walk\<close>

lemma py_list_index_mem:
  "x \<in> set xs \<Longrightarrow> \<exists>i. py_list_index xs x = Inr i \<and> i < length xs \<and> xs ! i = x"
  by (induction xs) auto

lemma py_list_index_nth:
  "distinct xs \<Longrightarrow> i < length xs \<Longrightarrow> py_list_index xs (xs ! i) = Inr i"
proof (induction xs arbitrary: i)
  case Nil
  then show ?case by simp
next
  case (Cons y ys)
  show ?case
  proof (cases i)
    case 0
    then show ?thesis by simp
  next
    case (Suc j)
    with Cons.prems have "j < length ys" "ys ! j \<noteq> y" "distinct ys" by auto
    with Cons.IH [of j] Suc show ?thesis by simp
  qed
qed

lemma VIM_ORDER_facts: "length VIM_ORDER = 9" "distinct VIM_ORDER"
  by (simp_all add: VIM_ORDER_def)

lemma VIM_PROP_eq:
  "VIM_PROP = [7 / 120, 20 / 120, 6 / 120, 10 / 120, 7 / 120, 18 / 120, 16 / 120, 19 / 120, 17 / 120]"
  by (simp add: VIM_PROP_def VIM_YEARS_def)

lemma VIM_PROP_facts:
  "length VIM_PROP = 9" "sum_list VIM_PROP = 1" "\<forall>p \<in> set VIM_PROP. 0 < p \<and> p \<le> 1 / 6"
  by (simp_all add: VIM_PROP_eq)

lemma rotate_from_Cons:
  "i < length xs \<Longrightarrow> rotate_from i xs = xs ! i # (drop (Suc i) xs @ take i xs)"
  by (simp add: rotate_from_def Cons_nth_drop_Suc)

lemma set_rotate_from: "set (rotate_from i xs) = set xs"
  using set_append [of "take i xs" "drop i xs"]
  unfolding append_take_drop_id rotate_from_def by auto

lemma sum_list_rotate_from: "sum_list (rotate_from i (xs :: real list)) = sum_list xs"
  using sum_list_append [of "take i xs" "drop i xs"]
  unfolding append_take_drop_id rotate_from_def by simp

lemma zip_rotate_from:
  "length xs = length ys \<Longrightarrow> zip (rotate_from i xs) (rotate_from i ys) = rotate_from i (zip xs ys)"
  by (simp add: rotate_from_def drop_zip take_zip)

lemma sub_lord_scan_mem:
  "sub_lord_scan cur cum zs = Some (l, c, p) \<Longrightarrow> (l, p) \<in> set zs"
  by (induction cur cum zs rule: sub_lord_scan.induct) (auto simp: Let_def split: if_splits)

lemma sub_lord_scan_found:
  "zs \<noteq> [] \<Longrightarrow> cur \<le> cum + sum_list (map snd zs) \<Longrightarrow> sub_lord_scan cur cum zs \<noteq> None"
proof (induction cur cum zs rule: sub_lord_scan.induct)
  case (1 cur_pos cumulative)
  then show ?case by simp
next
  case (2 cur_pos cumulative lord pr rest)
  show ?case
  proof (cases "cur_pos \<le> cumulative + pr \<or> \<bar>cur_pos - 1\<bar> < 1 / 10 ^ 9")
    case True
    then show ?thesis by (simp add: Let_def)
  next
    case False
    with "2.prems" have "rest \<noteq> []" by auto
    moreover from "2.prems" have "cur_pos \<le> (cumulative + pr) + sum_list (map snd rest)" by simp
    ultimately have "sub_lord_scan cur_pos (cumulative + pr) rest \<noteq> None"
      using "2.IH" [OF refl False] by blast
    with False show ?thesis by (simp add: Let_def)
  qed
qed

lemma sub_lord_scan_none:
  "\<forall>z \<in> set zs. 0 \<le> snd z \<Longrightarrow> cum + sum_list (map snd zs) < cur
   \<Longrightarrow> 1 / 10 ^ 9 \<le> \<bar>cur - 1\<bar> \<Longrightarrow> sub_lord_scan cur cum zs = None"
proof (induction cur cum zs rule: sub_lord_scan.induct)
  case (1 cur_pos cumulative)
  then show ?case by simp
next
  case (2 cur_pos cumulative lord pr rest)
  from "2.prems" have nn: "0 \<le> sum_list (map snd rest)"
    by (intro sum_list_nonneg) auto
  with "2.prems" have f: "\<not> (cur_pos \<le> cumulative + pr \<or> \<bar>cur_pos - 1\<bar> < 1 / 10 ^ 9)"
    by auto
  from "2.prems" have "sub_lord_scan cur_pos (cumulative + pr) rest = None"
    using "2.IH" [OF refl f] by (simp add: add.assoc)
  with f show ?case by (simp add: Let_def)
qed


lemma vim_table_zip:
  "i < 9 \<Longrightarrow> zip (rotate_from i VIM_ORDER) (rotate_from i VIM_PROP)
     = (VIM_ORDER ! i, VIM_PROP ! i) # (drop (Suc i) (zip VIM_ORDER VIM_PROP) @ take i (zip VIM_ORDER VIM_PROP))"
  by (simp add: VIM_ORDER_facts VIM_PROP_facts rotate_from_Cons drop_zip take_zip)

lemma vim_table_snd:
  "map snd (zip (rotate_from i VIM_ORDER) (rotate_from i VIM_PROP)) = rotate_from i VIM_PROP"
  by (simp add: rotate_from_def VIM_ORDER_facts VIM_PROP_facts)

lemma vim_table_fst:
  "map fst (zip (rotate_from i VIM_ORDER) (rotate_from i VIM_PROP)) = rotate_from i VIM_ORDER"
  by (simp add: rotate_from_def VIM_ORDER_facts VIM_PROP_facts)

lemma vim_scan_entry:
  assumes "sub_lord_scan cur 0 (zip (rotate_from i VIM_ORDER) (rotate_from i VIM_PROP)) = Some (l, c, p)"
  shows "l \<in> set VIM_ORDER \<and> 0 < p \<and> p \<le> 1 / 6"
proof -
  from assms have m: "(l, p) \<in> set (zip (rotate_from i VIM_ORDER) (rotate_from i VIM_PROP))"
    by (rule sub_lord_scan_mem)
  then have "l \<in> set (rotate_from i VIM_ORDER)" "p \<in> set (rotate_from i VIM_PROP)"
    by (auto dest: set_zip_leftD set_zip_rightD)
  then show ?thesis using VIM_PROP_facts(3) by (simp add: set_rotate_from)
qed

lemma sub_lord_levels_total:
  "vim_state (lords, cur, order, props) \<Longrightarrow>
   \<exists>ext cur' order' props'.
      sub_lord_levels n (lords, cur, order, props) = Inr (lords @ ext, cur', order', props')
      \<and> length ext \<le> n \<and> set ext \<subseteq> set VIM_ORDER"
proof (induction n arbitrary: lords cur order props)
  case 0
  then show ?case by simp
next
  case (Suc n)
  from Suc.prems obtain i where i: "i < 9" "order = rotate_from i VIM_ORDER"
    "props = rotate_from i VIM_PROP" by (auto simp: vim_state_def)
  show ?case
  proof (cases "sub_lord_scan cur 0 (zip order props)")
    case None
    with Suc.IH [OF Suc.prems] show ?thesis by fastforce
  next
    case (Some r)
    obtain l c p where r: "r = (l, c, p)" by (cases r) auto
    from Some r i have e: "l \<in> set VIM_ORDER" "0 < p" using vim_scan_entry by blast+
    from e(1) obtain j where j: "py_list_index VIM_ORDER l = Inr j" "j < 9"
      using py_list_index_mem [of l VIM_ORDER] by (auto simp: VIM_ORDER_facts)
    from j(2) have "vim_state (lords @ [l], (cur - c) / p, rotate_from j VIM_ORDER, rotate_from j VIM_PROP)"
      by (auto simp: vim_state_def)
    from Suc.IH [OF this] obtain ext cur' order' props' where
      x: "sub_lord_levels n (lords @ [l], (cur - c) / p, rotate_from j VIM_ORDER, rotate_from j VIM_PROP)
           = Inr ((lords @ [l]) @ ext, cur', order', props')" "length ext \<le> n" "set ext \<subseteq> set VIM_ORDER"
      by blast
    have "sub_lord_levels (Suc n) (lords, cur, order, props) = Inr (lords @ (l # ext), cur', order', props')"
      using Some r e(2) j(1) x(1) by (simp add: bind_err_def)
    moreover have "length (l # ext) \<le> Suc n" "set (l # ext) \<subseteq> set VIM_ORDER"
      using x(2,3) e(1) by simp_all
    ultimately show ?thesis by blast
  qed
qed

lemma sub_lord_levels_first:
  assumes "i < 9" and "sub_lord_scan cur 0 (zip (rotate_from i VIM_ORDER) (rotate_from i VIM_PROP)) = Some (l, c, p)"
  shows "\<exists>ext cur' order' props'.
      sub_lord_levels (Suc n) (lords, cur, rotate_from i VIM_ORDER, rotate_from i VIM_PROP)
        = Inr (lords @ l # ext, cur', order', props')
      \<and> length ext \<le> n \<and> set ext \<subseteq> set VIM_ORDER \<and> l \<in> set VIM_ORDER"
proof -
  from assms(2) have e: "l \<in> set VIM_ORDER" "0 < p" using vim_scan_entry by blast+
  from e(1) obtain j where j: "py_list_index VIM_ORDER l = Inr j" "j < 9"
    using py_list_index_mem [of l VIM_ORDER] by (auto simp: VIM_ORDER_facts)
  from j(2) have "vim_state (lords @ [l], (cur - c) / p, rotate_from j VIM_ORDER, rotate_from j VIM_PROP)"
    by (auto simp: vim_state_def)
  from sub_lord_levels_total [OF this, of n] obtain ext cur' order' props' where
    x: "sub_lord_levels n (lords @ [l], (cur - c) / p, rotate_from j VIM_ORDER, rotate_from j VIM_PROP)
         = Inr ((lords @ [l]) @ ext, cur', order', props')" "length ext \<le> n" "set ext \<subseteq> set VIM_ORDER"
    by blast
  have "sub_lord_levels (Suc n) (lords, cur, rotate_from i VIM_ORDER, rotate_from i VIM_PROP)
      = Inr (lords @ l # ext, cur', order', props')"
    using assms(2) e(2) j(1) x(1) by (simp add: bind_err_def)
  with x(2,3) e(1) show ?thesis by blast
qed

lemma find_sub_lord_recursive_unfold:
  assumes "py_list_index VIM_ORDER L = Inr i" and "w \<noteq> 0"
    and "sub_lord_levels n ([], off / w, rotate_from i VIM_ORDER, rotate_from i VIM_PROP)
           = Inr (lords, cur', order', props')"
  shows "find_sub_lord_recursive off w L n = Inr lords"
  using assms by (simp add: find_sub_lord_recursive_def bind_err_def Let_def)

lemma sub_lord_levels_stuck:
  assumes "i < 9" and "1 + 1 / 10 ^ 9 \<le> cur"
  shows "sub_lord_levels n (lords, cur, rotate_from i VIM_ORDER, rotate_from i VIM_PROP)
           = Inr (lords, cur, rotate_from i VIM_ORDER, rotate_from i VIM_PROP)"
proof -
  have "\<forall>z \<in> set (zip (rotate_from i VIM_ORDER) (rotate_from i VIM_PROP)). 0 \<le> snd z"
    using VIM_PROP_facts(3) by (auto dest!: set_zip_rightD simp: set_rotate_from less_imp_le)
  moreover have "0 + sum_list (map snd (zip (rotate_from i VIM_ORDER) (rotate_from i VIM_PROP))) < cur"
    using assms(2) by (simp add: vim_table_snd sum_list_rotate_from VIM_PROP_facts)
  moreover have "1 / 10 ^ 9 \<le> \<bar>cur - 1\<bar>" using assms(2) by simp
  ultimately have s: "sub_lord_scan cur 0 (zip (rotate_from i VIM_ORDER) (rotate_from i VIM_PROP)) = None"
    by (rule sub_lord_scan_none)
  show ?thesis by (induction n) (simp_all add: s)
qed

text \<open>When the position is within the tolerance of 1, the walk yields the starting lord alone.\<close>

lemma chain_near_one:
  assumes L: "L \<in> set VIM_ORDER" and w: "w \<noteq> 0" and p: "\<bar>off / w - 1\<bar> < 1 / 10 ^ 9" and n: "0 < n"
  shows "find_sub_lord_recursive off w L n = Inr [L]"
proof -
  from L obtain i where i: "py_list_index VIM_ORDER L = Inr i" "i < 9" "VIM_ORDER ! i = L"
    using py_list_index_mem [of L VIM_ORDER] by (auto simp: VIM_ORDER_facts)
  from n obtain m where m: "n = Suc m" by (cases n) auto
  have pr: "0 < VIM_PROP ! i" "VIM_PROP ! i \<le> 1 / 6"
    using VIM_PROP_facts(3) i(2) by (simp_all add: VIM_PROP_facts(1))
  have sc: "sub_lord_scan (off / w) 0 (zip (rotate_from i VIM_ORDER) (rotate_from i VIM_PROP))
      = Some (L, 0, VIM_PROP ! i)"
    using p i(2,3) by (simp add: vim_table_zip Let_def)
  define q where "q = off / w"
  have e: "(1 :: real) / 10 ^ 9 = 1 / 1000000000" by simp
  have q: "1 - 1 / 1000000000 < q" using p unfolding q_def e by linarith
  then have q0: "0 \<le> q" by linarith
  have "q / (1 / 6) \<le> q / (VIM_PROP ! i)"
    using pr q0 by (intro divide_left_mono) simp_all
  then have "6 * q \<le> q / (VIM_PROP ! i)" by simp
  with q have "1 + 1 / 1000000000 \<le> q / (VIM_PROP ! i)" by linarith
  then have big: "1 + 1 / 10 ^ 9 \<le> (off / w - 0) / (VIM_PROP ! i)"
    unfolding q_def e by simp
  have "sub_lord_levels n ([], off / w, rotate_from i VIM_ORDER, rotate_from i VIM_PROP)
      = sub_lord_levels m ([L], (off / w - 0) / (VIM_PROP ! i), rotate_from i VIM_ORDER, rotate_from i VIM_PROP)"
    unfolding m using sc pr(1) i(1) by (simp add: bind_err_def)
  also have "\<dots> = Inr ([L], (off / w - 0) / (VIM_PROP ! i), rotate_from i VIM_ORDER, rotate_from i VIM_PROP)"
    using i(2) big by (rule sub_lord_levels_stuck)
  finally show ?thesis using i(1) w by (rule find_sub_lord_recursive_unfold [rotated 2])
qed

text \<open>At position 0 every level selects the lord it starts from.\<close>

lemma sub_lord_levels_zero:
  assumes "i < 9"
  shows "sub_lord_levels n (lords, 0, rotate_from i VIM_ORDER, rotate_from i VIM_PROP)
       = Inr (lords @ replicate n (VIM_ORDER ! i), 0, rotate_from i VIM_ORDER, rotate_from i VIM_PROP)"
proof (induction n arbitrary: lords)
  case 0
  then show ?case by simp
next
  case (Suc n)
  have pr: "0 < VIM_PROP ! i"
    using VIM_PROP_facts(3) assms by (simp add: VIM_PROP_facts(1))
  have sc: "sub_lord_scan 0 0 (zip (rotate_from i VIM_ORDER) (rotate_from i VIM_PROP))
      = Some (VIM_ORDER ! i, 0, VIM_PROP ! i)"
    using assms pr by (simp add: vim_table_zip Let_def)
  have ix: "py_list_index VIM_ORDER (VIM_ORDER ! i) = Inr i"
    using assms by (intro py_list_index_nth) (simp_all add: VIM_ORDER_facts)
  show ?case using sc pr ix Suc.IH [of "lords @ [VIM_ORDER ! i]"]
    by (simp add: bind_err_def replicate_app_Cons_same)
qed

lemma chain_at_zero:
  assumes L: "L \<in> set VIM_ORDER" and w: "w \<noteq> 0"
  shows "find_sub_lord_recursive 0 w L n = Inr (replicate n L)"
proof -
  from L obtain i where i: "py_list_index VIM_ORDER L = Inr i" "i < 9" "VIM_ORDER ! i = L"
    using py_list_index_mem [of L VIM_ORDER] by (auto simp: VIM_ORDER_facts)
  have "sub_lord_levels n ([], 0 / w, rotate_from i VIM_ORDER, rotate_from i VIM_PROP)
       = Inr (replicate n L, 0, rotate_from i VIM_ORDER, rotate_from i VIM_PROP)"
    using sub_lord_levels_zero [OF i(2), of n "[]"] i(3) by simp
  with i(1) w show ?thesis by (rule find_sub_lord_recursive_unfold)
qed

text \<open>A position in \<open>[0, 1]\<close> always finds a lord at the first level.\<close>

lemma chain_nonempty:
  assumes L: "L \<in> set VIM_ORDER" and w: "w \<noteq> 0" and p: "off / w \<le> 1"
  shows "\<exists>l ext. find_sub_lord_recursive off w L (Suc n) = Inr (l # ext)
           \<and> length ext \<le> n \<and> set (l # ext) \<subseteq> set VIM_ORDER"
proof -
  from L obtain i where i: "py_list_index VIM_ORDER L = Inr i" "i < 9" "VIM_ORDER ! i = L"
    using py_list_index_mem [of L VIM_ORDER] by (auto simp: VIM_ORDER_facts)
  let ?zs = "zip (rotate_from i VIM_ORDER) (rotate_from i VIM_PROP)"
  have "?zs \<noteq> []" using i(2) by (simp add: vim_table_zip)
  moreover have "off / w \<le> 0 + sum_list (map snd ?zs)"
    using p by (simp add: vim_table_snd sum_list_rotate_from VIM_PROP_facts)
  ultimately have "sub_lord_scan (off / w) 0 ?zs \<noteq> None" by (rule sub_lord_scan_found)
  then obtain l c pr where sc: "sub_lord_scan (off / w) 0 ?zs = Some (l, c, pr)" by auto
  from sub_lord_levels_first [OF i(2) sc, of n "[]"] obtain ext cur' order' props' where
    x: "sub_lord_levels (Suc n) ([], off / w, rotate_from i VIM_ORDER, rotate_from i VIM_PROP)
         = Inr (l # ext, cur', order', props')" "length ext \<le> n" "set ext \<subseteq> set VIM_ORDER"
       "l \<in> set VIM_ORDER" by auto
  from i(1) w x(1) have "find_sub_lord_recursive off w L (Suc n) = Inr (l # ext)"
    by (rule find_sub_lord_recursive_unfold)
  with x(2,3,4) show ?thesis by auto
qed

text \<open>
  C1: the claim is that for an offset in \<open>[0, span_width]\<close> and \<open>levels = 3\<close> the chain has
  exactly three entries. The code returns fewer: at \<open>offset = span_width\<close> the tolerance
  test holds at the first entry, the rescaled position exceeds 1 and no later level finds
  a lord, so the chain has one entry; at the boundary \<open>7/120\<close> of the first interval the
  same happens one level down and the chain has two entries.
\<close>

theorem C1_chain_shorter_than_levels:
  "find_sub_lord_recursive (360 / 27) (360 / 27) ''Ketu'' 3 = Inr [''Ketu'']
   \<and> find_sub_lord_recursive (7 / 9) (360 / 27) ''Ketu'' 3 = Inr [''Ketu'', ''Ketu'']"
  by (simp add: find_sub_lord_recursive_def VIM_ORDER_def VIM_YEARS_def VIM_PROP_def
      rotate_from_def bind_err_def Let_def numeral_3_eq_3)

text \<open>
  C2: the claim is that a position at (or approaching) 1 is given to the last entry of the
  rotated sequence. In the code the tolerance test is part of the test made at every
  entry, so a position within \<open>10^-9\<close> of 1 is given to the first entry, the starting lord,
  and the chain stops there.
\<close>

theorem C2_position_near_one_selects_first_entry:
  "L \<in> set VIM_ORDER \<Longrightarrow> 0 < w \<Longrightarrow> \<bar>off / w - 1\<bar> < 1 / 10 ^ 9
   \<Longrightarrow> find_sub_lord_recursive off w L 3 = Inr [L]"
  by (rule chain_near_one) simp_all

theorem C2_position_near_one_selects_first_entry_witness:
  "''Ketu'' \<in> set VIM_ORDER \<and> (0 :: real) < 360 / 27
   \<and> \<bar>(133333333333 / 10 ^ 10) / (360 / 27) - 1 :: real\<bar> < 1 / 10 ^ 9
   \<and> (133333333333 / 10 ^ 10 :: real) < 360 / 27
   \<and> find_sub_lord_recursive (133333333333 / 10 ^ 10) (360 / 27) ''Ketu'' 3 = Inr [''Ketu'']
   \<and> last VIM_ORDER = ''Mercury''"
proof -
  have a: "''Ketu'' \<in> set VIM_ORDER" by (simp add: VIM_ORDER_def)
  have b: "(0 :: real) < 360 / 27" by simp
  have c: "\<bar>(133333333333 / 10 ^ 10) / (360 / 27) - 1 :: real\<bar> < 1 / 10 ^ 9" by simp
  have d: "(133333333333 / 10 ^ 10 :: real) < 360 / 27" by simp
  have e: "last VIM_ORDER = ''Mercury''" by (simp add: VIM_ORDER_def)
  from C2_position_near_one_selects_first_entry [OF a b c] a b c d e show ?thesis by blast
qed

text \<open>
  C3: for every starting lord \<open>L\<close> of the nine bodies and every positive span width, the
  chain for offset 0 begins with \<open>L\<close>.
\<close>

theorem C3_offset_zero_starts_with_lord:
  "L \<in> set VIM_ORDER \<Longrightarrow> 0 < w \<Longrightarrow> \<exists>rest. find_sub_lord_recursive 0 w L 3 = Inr (L # rest)"
  using chain_at_zero [of L w 3] by (simp add: numeral_3_eq_3)

theorem C3_offset_zero_starts_with_lord_witness:
  "''Moon'' \<in> set VIM_ORDER \<and> (0 :: real) < 360 / 27
   \<and> (\<exists>rest. find_sub_lord_recursive 0 (360 / 27) ''Moon'' 3 = Inr (''Moon'' # rest))"
proof -
  have a: "''Moon'' \<in> set VIM_ORDER" by (simp add: VIM_ORDER_def)
  have b: "(0 :: real) < 360 / 27" by simp
  from C3_offset_zero_starts_with_lord [OF a b] a b show ?thesis by blast
qed

lemma sub_lord_fields_Cons:
  "sub_lord_fields (l # ext) =
     Inr (l, if 1 < length (l # ext) then Some ((l # ext) ! 1) else None,
             if 2 < length (l # ext) then Some ((l # ext) ! 2) else None)"
  by (simp add: sub_lord_fields_def py_getitem_def bind_err_def)

text \<open>
  C9: for every offset in \<open>[0, span_width)\<close> (and a starting lord of the nine bodies) the
  chain is not empty, so reading its first entry cannot fail; the record fields are the
  first entry, and the second and third entry where the chain has them, \<open>None\<close> where it
  is shorter, and no error is raised.
\<close>

theorem C9_chain_nonempty_fields_defined:
  "0 \<le> off \<Longrightarrow> off < w \<Longrightarrow> L \<in> set VIM_ORDER \<Longrightarrow>
   \<exists>chain. find_sub_lord_recursive off w L 3 = Inr chain \<and> chain \<noteq> [] \<and> length chain \<le> 3
     \<and> sub_lord_fields chain =
         Inr (chain ! 0,
              if 1 < length chain then Some (chain ! 1) else None,
              if 2 < length chain then Some (chain ! 2) else None)"
proof -
  assume a: "0 \<le> off" "off < w" "L \<in> set VIM_ORDER"
  then have "w \<noteq> 0" "off / w \<le> 1" by simp_all
  from chain_nonempty [OF a(3) this, of 2] obtain l ext where
    x: "find_sub_lord_recursive off w L 3 = Inr (l # ext)" "length ext \<le> 2"
    by (auto simp: numeral_3_eq_3)
  have "sub_lord_fields (l # ext) =
     Inr ((l # ext) ! 0, if 1 < length (l # ext) then Some ((l # ext) ! 1) else None,
             if 2 < length (l # ext) then Some ((l # ext) ! 2) else None)"
    by (simp add: sub_lord_fields_Cons)
  moreover have "l # ext \<noteq> []" "length (l # ext) \<le> 3" using x(2) by simp_all
  ultimately show ?thesis using x(1) by blast
qed

theorem C9_chain_nonempty_fields_defined_witness:
  "(0 :: real) \<le> 7 / 9 \<and> (7 / 9 :: real) < 360 / 27 \<and> ''Ketu'' \<in> set VIM_ORDER
   \<and> (\<exists>chain. find_sub_lord_recursive (7 / 9) (360 / 27) ''Ketu'' 3 = Inr chain \<and> chain \<noteq> []
        \<and> length chain \<le> 3
        \<and> sub_lord_fields chain =
            Inr (chain ! 0,
                 if 1 < length chain then Some (chain ! 1) else None,
                 if 2 < length chain then Some (chain ! 2) else None))"
proof -
  have a: "(0 :: real) \<le> 7 / 9" by simp
  have b: "(7 / 9 :: real) < 360 / 27" by simp
  have c: "''Ketu'' \<in> set VIM_ORDER" by (simp add: VIM_ORDER_def)
  from C9_chain_nonempty_fields_defined [OF a b c] a b c show ?thesis by blast
qed

subsection \<open>Sign and nakshatra of a longitude\<close>

lemma py_int_of_int: "py_int (of_int k) = k"
  by (simp add: py_int_def)

lemma floor_div_range:
  fixes x s :: real
  assumes "0 \<le> x" "x < of_int n * s" "0 < s"
  shows "0 \<le> \<lfloor>x / s\<rfloor> \<and> \<lfloor>x / s\<rfloor> < n"
proof -
  from assms have "0 \<le> x / s" by simp
  then have a: "0 \<le> \<lfloor>x / s\<rfloor>" by simp
  from assms have "x / s < of_int n" by (simp add: field_simps)
  then have "\<lfloor>x / s\<rfloor> < n" by (simp add: floor_less_iff)
  with a show ?thesis by simp
qed

lemma sign_from_deg_normal:
  assumes "0 \<le> l" "l < 360"
  shows "sign_from_deg l = Inr (\<lfloor>l / 30\<rfloor> + 1, SIGN_NAMES ! nat \<lfloor>l / 30\<rfloor>)
         \<and> 0 \<le> \<lfloor>l / 30\<rfloor> \<and> \<lfloor>l / 30\<rfloor> < 12"
proof -
  have r: "0 \<le> \<lfloor>l / 30\<rfloor> \<and> \<lfloor>l / 30\<rfloor> < 12"
    using floor_div_range [of l 12 30] assms by simp
  have "length SIGN_NAMES = 12" by (simp add: SIGN_NAMES_def)
  with r have "py_getitem SIGN_NAMES (\<lfloor>l / 30\<rfloor> + 1 - 1) = Inr (SIGN_NAMES ! nat \<lfloor>l / 30\<rfloor>)"
    by (simp add: py_getitem_def Let_def)
  then show ?thesis using r assms
    by (simp add: sign_from_deg_def normalize_angle_id py_floordiv_def py_int_of_int bind_err_def Let_def)
qed

lemma nak_normal:
  assumes "0 \<le> l" "l < 360"
  shows "\<exists>charan. get_nak_charan_and_pos l =
           Inr (\<lfloor>l / (360 / 27)\<rfloor> + 1, fst (NAK_SHAPES ! nat \<lfloor>l / (360 / 27)\<rfloor>),
                snd (NAK_SHAPES ! nat \<lfloor>l / (360 / 27)\<rfloor>), charan,
                l - of_int \<lfloor>l / (360 / 27)\<rfloor> * (360 / 27), 360 / 27)
           \<and> 1 \<le> charan \<and> charan \<le> 4"
    and "0 \<le> \<lfloor>l / (360 / 27)\<rfloor> \<and> \<lfloor>l / (360 / 27)\<rfloor> < 27"
    and "0 \<le> l - of_int \<lfloor>l / (360 / 27)\<rfloor> * (360 / 27)"
    and "l - of_int \<lfloor>l / (360 / 27)\<rfloor> * (360 / 27) < 360 / 27"
proof -
  define ns :: real where "ns = 360 / 27"
  define k where "k = \<lfloor>l / ns\<rfloor>"
  define pos where "pos = l - of_int k * ns"
  define charan0 where "charan0 = \<lfloor>pos / (ns / 4)\<rfloor> + 1"
  have ns: "0 < ns" "of_int 27 * ns = 360" by (simp_all add: ns_def)
  have r: "0 \<le> k \<and> k < 27"
    unfolding k_def using floor_div_range [of l 27 ns] assms ns by simp
  have m: "py_mod l 360 = l" using normalize_angle_id [OF assms] by (simp add: normalize_angle_eq)
  have "of_int k \<le> l / ns" "l / ns < of_int k + 1"
    unfolding k_def by linarith+
  then have p: "0 \<le> pos" "pos < ns"
    using ns(1) by (simp_all add: field_simps pos_def)
  have "length NAK_SHAPES = 27" by (simp add: NAK_SHAPES_def)
  with r have g: "py_getitem NAK_SHAPES k = Inr (NAK_SHAPES ! nat k)"
    by (simp add: py_getitem_def Let_def)
  have "pos < of_int 4 * (ns / 4)" using p by simp
  then have c: "0 \<le> \<lfloor>pos / (ns / 4)\<rfloor> \<and> \<lfloor>pos / (ns / 4)\<rfloor> < 4"
    using floor_div_range [of pos 4 "ns / 4"] p ns(1) by simp
  then have c0: "1 \<le> charan0 \<and> charan0 \<le> 4" by (simp add: charan0_def)
  have main: "get_nak_charan_and_pos l =
     Inr (k + 1, fst (NAK_SHAPES ! nat k), snd (NAK_SHAPES ! nat k), charan0, pos, ns)"
    unfolding get_nak_charan_and_pos_def ns_def [symmetric] m py_floordiv_def py_int_of_int Let_def
      k_def [symmetric]
    using r g p c
    by (simp add: bind_err_def split_beta pos_def [symmetric] charan0_def)
  from r show "0 \<le> \<lfloor>l / (360 / 27)\<rfloor> \<and> \<lfloor>l / (360 / 27)\<rfloor> < 27"
    unfolding k_def ns_def .
  from p show "0 \<le> l - of_int \<lfloor>l / (360 / 27)\<rfloor> * (360 / 27)"
    "l - of_int \<lfloor>l / (360 / 27)\<rfloor> * (360 / 27) < 360 / 27"
    unfolding pos_def k_def ns_def .
  from main c0 have "\<exists>charan. get_nak_charan_and_pos l =
     Inr (k + 1, fst (NAK_SHAPES ! nat k), snd (NAK_SHAPES ! nat k), charan, pos, ns)
     \<and> 1 \<le> charan \<and> charan \<le> 4" by blast
  then show "\<exists>charan. get_nak_charan_and_pos l =
           Inr (\<lfloor>l / (360 / 27)\<rfloor> + 1, fst (NAK_SHAPES ! nat \<lfloor>l / (360 / 27)\<rfloor>),
                snd (NAK_SHAPES ! nat \<lfloor>l / (360 / 27)\<rfloor>), charan,
                l - of_int \<lfloor>l / (360 / 27)\<rfloor> * (360 / 27), 360 / 27)
           \<and> 1 \<le> charan \<and> charan \<le> 4"
    unfolding pos_def k_def ns_def .
qed


text \<open>
  C5: the claim is that the nakshatra index of a longitude in \<open>[0, 360)\<close> is
  \<open>floor (l / (360/27)) + 1\<close>, with boundaries at the multiples of 13 degrees 20 minutes.
  In binary64 \<open>360.0 / 27.0\<close> is slightly more than \<open>40/3\<close>, so at the boundary 40 the
  quotient \<open>40.0 // nak_size\<close> is 2 and the code returns index 3, where
  \<open>floor (40 / (360/27)) + 1\<close> is 4.
\<close>

theorem C5_nakshatra_index_at_boundary_40:
  "get_nak_charan_and_pos_f 40 =
     Inr (3, ''Krittika'', ''Sun'', 4, 3752999689475413 / 2 ^ 48, 7505999378950827 / 2 ^ 49)
   \<and> \<lfloor>(40 :: real) / (360 / 27)\<rfloor> + 1 = 4
   \<and> (40 :: real) = 3 * (13 + 20 / 60)"
proof -
  have s1: "py_mod_f 40 360 = 40"
    by (rule py_mod_f_keep [of _ _ 40]) (simp_all add: c_fmod_def py_int_def)
  have s2: "fdiv 360 27 = 7505999378950827 / 2 ^ 49"
    unfolding fdiv_def by (subst rnd_eq [of 3]) (simp_all add: round_half_even_def Let_def)
  have a1: "c_fmod 40 (7505999378950827 / 2 ^ 49) = 3752999689475413 / 2 ^ 48"
    by (simp add: c_fmod_def py_int_def)
  have a2: "fsub 40 (3752999689475413 / 2 ^ 48) = 7505999378950827 / 2 ^ 48"
    unfolding fsub_def by (subst rnd_eq [of 4]) (simp_all add: round_half_even_def Let_def)
  have a3: "fdiv (7505999378950827 / 2 ^ 48) (7505999378950827 / 2 ^ 49) = 2"
    unfolding fdiv_def by (subst rnd_eq [of 1]) (simp_all add: round_half_even_def Let_def)
  have a4: "fsub 2 2 = 0" by (simp add: fsub_def rnd_0)
  have s3: "py_floordiv_f 40 (7505999378950827 / 2 ^ 49) = 2"
    by (rule py_floordiv_f_trace [OF a1 _ a2 a3 _ _ a4]) simp_all
  have s4: "py_int 2 + 1 = 3" by (simp add: py_int_def)
  have s6: "py_getitem NAK_SHAPES (3 - 1) = Inr (''Krittika'', ''Sun'')"
    by (simp add: py_getitem_def NAK_SHAPES_def)
  have s7: "fmul (of_int (3 - 1)) (7505999378950827 / 2 ^ 49) = 7505999378950827 / 2 ^ 48"
    unfolding fmul_def by (subst rnd_eq [of 4]) (simp_all add: round_half_even_def Let_def)
  have s8: "fsub 40 (7505999378950827 / 2 ^ 48) = 3752999689475413 / 2 ^ 48"
    unfolding fsub_def by (subst rnd_eq [of 3]) (simp_all add: round_half_even_def Let_def)
  have s10: "fdiv (7505999378950827 / 2 ^ 49) 4 = 7505999378950827 / 2 ^ 51"
    unfolding fdiv_def by (subst rnd_eq [of 1]) (simp_all add: round_half_even_def Let_def)
  have b1: "c_fmod (3752999689475413 / 2 ^ 48) (7505999378950827 / 2 ^ 51)
      = 7505999378950823 / 2 ^ 51"
    by (simp add: c_fmod_def py_int_def)
  have b2: "fsub (3752999689475413 / 2 ^ 48) (7505999378950823 / 2 ^ 51) = 10"
    unfolding fsub_def by (subst rnd_eq [of 3]) (simp_all add: round_half_even_def Let_def)
  have b3: "fdiv 10 (7505999378950827 / 2 ^ 51) = 3"
    unfolding fdiv_def by (subst rnd_eq [of 1]) (simp_all add: round_half_even_def Let_def)
  have b4: "fsub 3 3 = 0" by (simp add: fsub_def rnd_0)
  have s11: "py_floordiv_f (3752999689475413 / 2 ^ 48) (7505999378950827 / 2 ^ 51) = 3"
    by (rule py_floordiv_f_trace [OF b1 _ b2 b3 _ _ b4]) simp_all
  have s12: "py_int 3 + 1 = 4" by (simp add: py_int_def)
  have "get_nak_charan_and_pos_f 40 =
     Inr (3, ''Krittika'', ''Sun'', 4, 3752999689475413 / 2 ^ 48, 7505999378950827 / 2 ^ 49)"
    by (rule get_nak_f_trace [OF s1 s2 s3 s4 _ s6 s7 s8 _ s10 s11 s12]) simp_all
  moreover have "\<lfloor>(40 :: real) / (360 / 27)\<rfloor> + 1 = 4" by simp
  moreover have "(40 :: real) = 3 * (13 + 20 / 60)" by simp
  ultimately show ?thesis by blast
qed

subsection \<open>House of a longitude\<close>

lemma house_scan_find:
  "house_scan ay cl L idxs = map_option (\<lambda>i. int i + 1) (find (spec_house_matches ay cl L) idxs)"
  by (induction idxs) (simp_all add: spec_house_matches_def spec_in_interval_def Let_def)

lemma locate_house_find:
  "locate_house ay cl L =
     (case find (spec_house_matches ay cl L) [0..<12] of None \<Rightarrow> 12 | Some i \<Rightarrow> int i + 1)"
  by (simp add: locate_house_def house_scan_find split: option.splits)

lemma locate_house_first:
  assumes "i < 12" "spec_house_matches ay cl L i" "\<forall>j<i. \<not> spec_house_matches ay cl L j"
  shows "locate_house ay cl L = int i + 1"
proof -
  have "find (spec_house_matches ay cl L) [0..<12] = Some i"
    unfolding find_Some_iff using assms by (intro exI [of _ i]) simp
  then show ?thesis by (simp add: locate_house_find)
qed

lemma locate_house_default:
  assumes "\<forall>i<12. \<not> spec_house_matches ay cl L i"
  shows "locate_house ay cl L = 12"
proof -
  have "find (spec_house_matches ay cl L) [0..<12] = None"
    unfolding find_None_iff using assms by simp
  then show ?thesis by (simp add: locate_house_find)
qed

lemma locate_house_range: "1 \<le> locate_house ay cl L \<and> locate_house ay cl L \<le> 12"
proof (cases "find (spec_house_matches ay cl L) [0..<12]")
  case None
  then show ?thesis by (simp add: locate_house_find)
next
  case (Some i)
  then have "i \<in> set [0..<12]" by (auto simp: find_Some_iff)
  with Some show ?thesis by (simp add: locate_house_find)
qed

lemma locate_house_wraparound_example: "locate_house 0 [10, 40, 70, 100, 130, 160, 190, 220, 250, 280, 310, 340] 355 = 12"
  by (simp add: locate_house_def upt_rec normalize_angle_id)

text \<open>
  C6: the house of a longitude, for a list of 12 cusps: the first index \<open>i\<close> in cusp order
  whose circular interval from cusp \<open>i\<close> to cusp \<open>i + 1\<close> holds the longitude (tested
  as \<open>start \<le> L < end\<close> when \<open>start \<le> end\<close>, as \<open>L \<ge> start\<close> or \<open>L < end\<close> when the
  interval wraps), counted from 1; house 12 when no interval holds it. No error is raised.
\<close>

theorem C6_locate_house_first_match:
  "length cusp_list = 12 \<Longrightarrow>
     locate_house ayanamsha cusp_list L =
       (case find (spec_house_matches ayanamsha cusp_list L) [0..<12] of
          None \<Rightarrow> 12 | Some i \<Rightarrow> int i + 1)
   \<and> (\<forall>i<12. spec_house_matches ayanamsha cusp_list L i
          \<and> (\<forall>j<i. \<not> spec_house_matches ayanamsha cusp_list L j)
        \<longrightarrow> locate_house ayanamsha cusp_list L = int i + 1)
   \<and> ((\<forall>i<12. \<not> spec_house_matches ayanamsha cusp_list L i)
        \<longrightarrow> locate_house ayanamsha cusp_list L = 12)
   \<and> 1 \<le> locate_house ayanamsha cusp_list L \<and> locate_house ayanamsha cusp_list L \<le> 12"
  using locate_house_find [of ayanamsha cusp_list L] locate_house_range [of ayanamsha cusp_list L]
    locate_house_first [of _ ayanamsha cusp_list L] locate_house_default [of ayanamsha cusp_list L]
  by blast

theorem C6_locate_house_first_match_witness:
  "length [10, 40, 70, 100, 130, 160, 190, 220, 250, 280, 310, 340 :: real] = 12
   \<and> spec_house_matches 0 [10, 40, 70, 100, 130, 160, 190, 220, 250, 280, 310, 340] 45 1
   \<and> \<not> spec_house_matches 0 [10, 40, 70, 100, 130, 160, 190, 220, 250, 280, 310, 340] 45 0
   \<and> locate_house 0 [10, 40, 70, 100, 130, 160, 190, 220, 250, 280, 310, 340] 45 = 2
   \<and> length (replicate 12 (10 :: real)) = 12
   \<and> \<not> (\<exists>i<12. spec_house_matches 0 (replicate 12 10) 55 i)
   \<and> locate_house 0 (replicate 12 10) 55 = 12"
proof -
  let ?cs = "[10, 40, 70, 100, 130, 160, 190, 220, 250, 280, 310, 340 :: real]"
  have l1: "length ?cs = 12" by simp
  have m1: "spec_house_matches 0 ?cs 45 1"
    by (simp add: spec_house_matches_def spec_in_interval_def normalize_angle_id)
  have m0: "\<not> spec_house_matches 0 ?cs 45 0"
    by (simp add: spec_house_matches_def spec_in_interval_def normalize_angle_id)
  have m0': "\<forall>j<1. \<not> spec_house_matches 0 ?cs 45 j" using m0 by simp
  have "\<forall>i<12. spec_house_matches 0 ?cs 45 i \<and> (\<forall>j<i. \<not> spec_house_matches 0 ?cs 45 j)
          \<longrightarrow> locate_house 0 ?cs 45 = int i + 1"
    using C6_locate_house_first_match [OF l1, of 0 45] by (elim conjE)
  from this [rule_format, of 1] m1 m0' have h1: "locate_house 0 ?cs 45 = 2" by simp
  have l2: "length (replicate 12 (10 :: real)) = 12" by simp
  have n2: "\<forall>i<12. \<not> spec_house_matches 0 (replicate 12 10) 55 i"
    by (simp add: spec_house_matches_def spec_in_interval_def normalize_angle_id)
  have h2: "locate_house 0 (replicate 12 10) 55 = 12"
    using C6_locate_house_first_match [OF l2, of 0 55] n2 by blast
  from n2 have n2': "\<not> (\<exists>i<12. spec_house_matches 0 (replicate 12 10) 55 i)" by blast
  from l1 m1 m0 h1 l2 n2' h2 show ?thesis by blast
qed


subsection \<open>The Ketu record\<close>

lemma bind_err_Inr:
  "bind_err m f = Inr y \<Longrightarrow> \<exists>x. m = Inr x \<and> f x = Inr y"
  by (cases m) (simp_all add: bind_err_def)

lemma planet_entry_fields:
  assumes "planet_entry calc_ut cusps ayanamsha JD pconst pname = Inr r"
  shows "planet_name r = pname"
    and "full_degree r =
           py_round (normalize_angle (normalize_angle (calc_ut JD pconst) - ayanamsha)) 6"
    and "is_retro r = is_retrograde calc_ut JD pconst 2"
  using assms unfolding planet_entry_def Let_def
  by (auto dest!: bind_err_Inr split: prod.splits)

lemma ketu_entry_fields:
  assumes "ketu_entry cusps ayanamsha rahu = Inr ketu"
  shows "planet_name ketu = ''Ketu''"
    and "full_degree ketu = py_round (normalize_angle (full_degree rahu + 180)) 6"
    and "is_retro ketu = is_retro rahu"
    and "sign_from_deg (normalize_angle (full_degree rahu + 180)) = Inr (sign_id ketu, sign_name ketu)"
    and "py_dict_getitem SIGN_RULER (sign_id ketu) = Inr (sign_lord ketu)"
    and "\<exists>pos size. get_nak_charan_and_pos (normalize_angle (full_degree rahu + 180)) =
           Inr (nakshatra_id ketu, nakshatra_name ketu, nakshatra_lord ketu,
                nakshatra_charan ketu, pos, size)"
    and "\<exists>cusp_list. cusp_list_of cusps = Inr cusp_list
           \<and> house ketu = locate_house ayanamsha cusp_list (normalize_angle (full_degree rahu + 180))
           \<and> house_lord_of ayanamsha cusp_list (house ketu) = Inr (house_lord ketu)"
  using assms unfolding ketu_entry_def Let_def
  by (auto dest!: bind_err_Inr split: prod.splits)

lemma planets_loop_entries:
  "planets_loop calc_ut cusps ayanamsha JD ps out = Inr res \<Longrightarrow>
   \<exists>rs. res = out @ rs
      \<and> list_all2 (\<lambda>p r. planet_entry calc_ut cusps ayanamsha JD (fst p) (snd p) = Inr r) ps rs"
proof (induction ps arbitrary: out)
  case Nil
  then show ?case by simp
next
  case (Cons p ps)
  obtain pconst pname where p: "p = (pconst, pname)" by (cases p) auto
  from Cons.prems obtain r where
    r: "planet_entry calc_ut cusps ayanamsha JD pconst pname = Inr r"
       "planets_loop calc_ut cusps ayanamsha JD ps (out @ [r]) = Inr res"
    unfolding p by (auto dest!: bind_err_Inr)
  from Cons.IH [OF r(2)] obtain rs where
    rs: "res = (out @ [r]) @ rs"
        "list_all2 (\<lambda>p r. planet_entry calc_ut cusps ayanamsha JD (fst p) (snd p) = Inr r) ps rs"
    by blast
  have "res = out @ (r # rs)" using rs(1) by simp
  moreover have "list_all2 (\<lambda>p r. planet_entry calc_ut cusps ayanamsha JD (fst p) (snd p) = Inr r)
      (p # ps) (r # rs)" using rs(2) r(1) p by simp
  ultimately show ?case by blast
qed

lemma find_append_Some: "find P xs = Some x \<Longrightarrow> find P (xs @ ys) = Some x"
  by (induction xs) (auto split: if_splits)

lemma planets_rahu_index: "j < 8 \<Longrightarrow> snd (PLANETS ! j) = ''Rahu'' \<Longrightarrow> fst (PLANETS ! j) = 10"
proof -
  assume "j < 8" "snd (PLANETS ! j) = ''Rahu''"
  then have "j = 0 \<or> j = 1 \<or> j = 2 \<or> j = 3 \<or> j = 4 \<or> j = 5 \<or> j = 6 \<or> j = 7" by arith
  with \<open>snd (PLANETS ! j) = ''Rahu''\<close> show ?thesis by (auto simp: PLANETS_def)
qed

lemma compute_kp_planets_shape:
  assumes "compute_kp_planets calc_ut cusps ayanamsha JD = Inr planets"
  shows "\<exists>rs rahu ketu. planets = rs @ [ketu]
          \<and> find (\<lambda>p. planet_name p = ''Rahu'') planets = Some rahu
          \<and> planet_entry calc_ut cusps ayanamsha JD 10 ''Rahu'' = Inr rahu
          \<and> ketu_entry cusps ayanamsha rahu = Inr ketu"
proof -
  let ?P = "\<lambda>p r. planet_entry calc_ut cusps ayanamsha JD (fst p) (snd p) = Inr r"
  from assms obtain rs where
    rs: "planets_loop calc_ut cusps ayanamsha JD PLANETS [] = Inr rs"
    and c: "(case find (\<lambda>p. planet_name p = ''Rahu'') rs of
              None \<Rightarrow> Inr rs
            | Some rahu \<Rightarrow> bind_err (ketu_entry cusps ayanamsha rahu) (\<lambda>ketu. Inr (rs @ [ketu])))
            = Inr planets"
    unfolding compute_kp_planets_def by (auto dest!: bind_err_Inr)
  from planets_loop_entries [OF rs] have all: "list_all2 ?P PLANETS rs" by simp
  then have len: "length rs = 8" by (auto dest: list_all2_lengthD simp: PLANETS_def)
  from all have "?P (PLANETS ! 7) (rs ! 7)" by (rule list_all2_nthD) (simp add: PLANETS_def)
  then have "planet_name (rs ! 7) = ''Rahu''"
    using planet_entry_fields(1) [of calc_ut cusps ayanamsha JD "fst (PLANETS ! 7)" "snd (PLANETS ! 7)"]
    by (simp add: PLANETS_def)
  with len have "\<exists>x. x \<in> set rs \<and> planet_name x = ''Rahu''"
    by (intro exI [of _ "rs ! 7"]) simp
  then have "find (\<lambda>p. planet_name p = ''Rahu'') rs \<noteq> None" by (simp add: find_None_iff)
  then obtain rahu where f: "find (\<lambda>p. planet_name p = ''Rahu'') rs = Some rahu" by blast
  then have mem: "rahu \<in> set rs" and nm: "planet_name rahu = ''Rahu''"
    by (auto simp: find_Some_iff)
  from mem obtain j where j: "j < length rs" "rs ! j = rahu" by (auto simp: in_set_conv_nth)
  with all have e: "?P (PLANETS ! j) rahu" by (auto dest: list_all2_nthD2)
  from planet_entry_fields(1) [OF e] nm have "snd (PLANETS ! j) = ''Rahu''" by simp
  with j(1) len have "fst (PLANETS ! j) = 10" by (intro planets_rahu_index) simp_all
  with e \<open>snd (PLANETS ! j) = ''Rahu''\<close>
  have g: "planet_entry calc_ut cusps ayanamsha JD 10 ''Rahu'' = Inr rahu" by simp
  from c f obtain ketu where k: "ketu_entry cusps ayanamsha rahu = Inr ketu" "planets = rs @ [ketu]"
    by (auto dest!: bind_err_Inr)
  from f have "find (\<lambda>p. planet_name p = ''Rahu'') (rs @ [ketu]) = Some rahu"
    by (rule find_append_Some)
  with k g show ?thesis by blast
qed

text \<open>
  C8, as amended: whenever the planet records are produced, the output holds the Rahu
  record, whose longitude is the mean node's sidereal longitude rounded to six decimals,
  and ends with the Ketu record. Ketu's longitude \<open>ketu_sid_lon\<close> is \<open>normalize_angle\<close> of
  Rahu's recorded longitude plus 180; the record stores it rounded to six decimals; its
  retrograde flag is Rahu's; its sign, sign lord, nakshatra and house are those the
  classifiers give for \<open>ketu_sid_lon\<close>.
\<close>

theorem C8_ketu_derived_from_recorded_rahu:
  "compute_kp_planets calc_ut cusps ayanamsha JD = Inr planets \<Longrightarrow>
   \<exists>rahu ketu ketu_sid_lon.
       find (\<lambda>p. planet_name p = ''Rahu'') planets = Some rahu
     \<and> full_degree rahu =
         py_round (normalize_angle (normalize_angle (calc_ut JD 10) - ayanamsha)) 6
     \<and> last planets = ketu \<and> planet_name ketu = ''Ketu''
     \<and> ketu_sid_lon = normalize_angle (full_degree rahu + 180)
     \<and> full_degree ketu = py_round ketu_sid_lon 6
     \<and> is_retro ketu = is_retro rahu
     \<and> sign_from_deg ketu_sid_lon = Inr (sign_id ketu, sign_name ketu)
     \<and> py_dict_getitem SIGN_RULER (sign_id ketu) = Inr (sign_lord ketu)
     \<and> (\<exists>pos size. get_nak_charan_and_pos ketu_sid_lon =
           Inr (nakshatra_id ketu, nakshatra_name ketu, nakshatra_lord ketu,
                nakshatra_charan ketu, pos, size))
     \<and> (\<exists>cusp_list. cusp_list_of cusps = Inr cusp_list
           \<and> house ketu = locate_house ayanamsha cusp_list ketu_sid_lon)"
proof -
  assume "compute_kp_planets calc_ut cusps ayanamsha JD = Inr planets"
  from compute_kp_planets_shape [OF this] obtain rs rahu ketu where
    s: "planets = rs @ [ketu]" "find (\<lambda>p. planet_name p = ''Rahu'') planets = Some rahu"
       "planet_entry calc_ut cusps ayanamsha JD 10 ''Rahu'' = Inr rahu"
       "ketu_entry cusps ayanamsha rahu = Inr ketu"
    by blast
  note r = planet_entry_fields(2) [OF s(3)]
  note k = ketu_entry_fields [OF s(4)]
  have "last planets = ketu" using s(1) by simp
  with s(2) r k show ?thesis by blast
qed

text \<open>
  The claim as first stated equates the longitude in the Ketu record with
  \<open>normalize_angle\<close> of Rahu's recorded longitude plus 180. In binary64, for a Rahu
  record at 200.9 the sum normalises to \<open>20.899999999999977\<close>, which the record stores
  rounded as 20.9.
\<close>

theorem C8_stored_ketu_longitude_counterexample:
  "ketu_sid_lon_f (rnd (2009 / 10)) = 183838344164147 / 2 ^ 43
   \<and> ketu_full_degree_f (rnd (2009 / 10)) = 2941413506626355 / 2 ^ 47
   \<and> ketu_full_degree_f (rnd (2009 / 10)) \<noteq> normalize_angle_f (fadd (rnd (2009 / 10)) 180)"
proof -
  have f1: "rnd (2009 / 10) = 7068540352646349 / 2 ^ 45"
    by (subst rnd_eq [of 7]) (simp_all add: round_half_even_def Let_def)
  have f2: "fadd (7068540352646349 / 2 ^ 45) 180 = 3350431832159027 / 2 ^ 43"
    unfolding fadd_def by (subst rnd_eq [of 8]) (simp_all add: round_half_even_def Let_def)
  have f3: "c_fmod (3350431832159027 / 2 ^ 43) 360 = 183838344164147 / 2 ^ 43"
    by (simp add: c_fmod_def py_int_def)
  have f4: "py_mod_f (3350431832159027 / 2 ^ 43) 360 = 183838344164147 / 2 ^ 43"
    by (rule py_mod_f_keep [OF f3]) simp_all
  have f5: "normalize_angle_f (3350431832159027 / 2 ^ 43) = 183838344164147 / 2 ^ 43"
    unfolding normalize_angle_f_def f4 by simp
  have n: "normalize_angle_f (fadd (rnd (2009 / 10)) 180) = 183838344164147 / 2 ^ 43"
    unfolding f1 f2 f5 ..
  have k: "ketu_sid_lon_f (rnd (2009 / 10)) = 183838344164147 / 2 ^ 43"
    unfolding ketu_sid_lon_f_def n ..
  have f6: "round_half_even (183838344164147 / 2 ^ 43 * 10 ^ 6) = 20900000"
    by (simp add: round_half_even_def Let_def)
  have f7: "py_round_f (183838344164147 / 2 ^ 43) 6 = 2941413506626355 / 2 ^ 47"
    unfolding py_round_f_def f6 by (subst rnd_eq [of 4]) (simp_all add: round_half_even_def Let_def)
  have d: "ketu_full_degree_f (rnd (2009 / 10)) = 2941413506626355 / 2 ^ 47"
    unfolding ketu_full_degree_f_def k f7 ..
  have "(2941413506626355 / 2 ^ 47 :: real) \<noteq> 183838344164147 / 2 ^ 43" by simp
  with k d n show ?thesis by simp
qed

lemma sign_from_deg_total: "\<exists>i name. sign_from_deg x = Inr (i, name) \<and> 1 \<le> i \<and> i \<le> 12"
proof -
  have b: "0 \<le> normalize_angle x" "normalize_angle x < 360"
    using normalize_angle_bounds [of x] by simp_all
  have "sign_from_deg x = sign_from_deg (normalize_angle x)"
    by (simp add: sign_from_deg_def normalize_angle_id [OF b])
  with sign_from_deg_normal [OF b] show ?thesis by auto
qed

lemma sign_ruler_total: "1 \<le> i \<Longrightarrow> i \<le> 12 \<Longrightarrow> \<exists>v. py_dict_getitem SIGN_RULER i = Inr v"
proof -
  assume "1 \<le> i" "i \<le> 12"
  then have "i = 1 \<or> i = 2 \<or> i = 3 \<or> i = 4 \<or> i = 5 \<or> i = 6 \<or> i = 7 \<or> i = 8 \<or> i = 9
      \<or> i = 10 \<or> i = 11 \<or> i = 12" by arith
  then show ?thesis by (auto simp: py_dict_getitem_def SIGN_RULER_def)
qed

lemma nak_lords_in_order: "\<forall>e \<in> set NAK_SHAPES. snd e \<in> set VIM_ORDER"
  by (simp add: NAK_SHAPES_def VIM_ORDER_def)

lemma get_nak_total:
  "\<exists>n name lord charan pos. get_nak_charan_and_pos x = Inr (n, name, lord, charan, pos, 360 / 27)
      \<and> 0 \<le> pos \<and> pos < 360 / 27 \<and> lord \<in> set VIM_ORDER"
proof -
  define l where "l = py_mod x 360"
  have b: "0 \<le> l" "l < 360" using py_mod_360_bounds [of x] by (simp_all add: l_def)
  have "py_mod l 360 = l" using normalize_angle_id [OF b] by (simp add: normalize_angle_eq)
  then have e: "get_nak_charan_and_pos x = get_nak_charan_and_pos l"
    by (simp add: get_nak_charan_and_pos_def l_def [symmetric])
  have "length NAK_SHAPES = 27" by (simp add: NAK_SHAPES_def)
  moreover have "nat \<lfloor>l / (360 / 27)\<rfloor> < 27" using nak_normal(2) [OF b] by linarith
  ultimately have "nat \<lfloor>l / (360 / 27)\<rfloor> < length NAK_SHAPES" by (simp only:)
  then have "NAK_SHAPES ! nat \<lfloor>l / (360 / 27)\<rfloor> \<in> set NAK_SHAPES" by (rule nth_mem)
  then have "snd (NAK_SHAPES ! nat \<lfloor>l / (360 / 27)\<rfloor>) \<in> set VIM_ORDER"
    using nak_lords_in_order by blast
  with nak_normal(1,3,4) [OF b] e show ?thesis by metis
qed

lemma cusp_list_of_total:
  "length cusps = 12 \<or> length cusps = 13 \<Longrightarrow> \<exists>cl. cusp_list_of cusps = Inr cl \<and> length cl = 12"
  by (auto simp: cusp_list_of_def)

lemma house_lord_of_total:
  assumes "length cl = 12"
  shows "\<exists>v. house_lord_of ay cl (locate_house ay cl L) = Inr v"
proof -
  define h where "h = locate_house ay cl L"
  have h: "1 \<le> h" "h \<le> 12" using locate_house_range [of ay cl L] by (simp_all add: h_def)
  with assms have g: "py_getitem cl (h - 1) = Inr (cl ! nat (h - 1))"
    by (simp add: py_getitem_def Let_def)
  define c where "c = normalize_angle (cl ! nat (h - 1) - ay)"
  have "0 \<le> c" "c < of_int 12 * 30" using normalize_angle_bounds [of "cl ! nat (h - 1) - ay"]
    by (simp_all add: c_def)
  then have "0 \<le> \<lfloor>c / 30\<rfloor> \<and> \<lfloor>c / 30\<rfloor> < 12" by (intro floor_div_range) simp_all
  then obtain v where "py_dict_getitem SIGN_RULER (\<lfloor>c / 30\<rfloor> + 1) = Inr v"
    using sign_ruler_total [of "\<lfloor>c / 30\<rfloor> + 1"] by auto
  then show ?thesis
    unfolding h_def [symmetric] house_lord_of_def g
    by (simp add: bind_err_def py_floordiv_def py_int_of_int c_def)
qed

lemma sub_lords_total:
  assumes "0 \<le> pos" "pos < 360 / 27" "lord \<in> set VIM_ORDER"
  shows "\<exists>sub_lords f. find_sub_lord_recursive pos (360 / 27) lord 3 = Inr sub_lords
           \<and> sub_lord_fields sub_lords = Inr f"
proof -
  from assms have "(360 / 27 :: real) \<noteq> 0" "pos / (360 / 27) \<le> 1" by simp_all
  from chain_nonempty [OF assms(3) this, of 2] obtain l ext where
    "find_sub_lord_recursive pos (360 / 27) lord 3 = Inr (l # ext)"
    by (auto simp: numeral_3_eq_3)
  then show ?thesis using sub_lord_fields_Cons [of l ext] by blast
qed

lemma planet_entry_total:
  assumes c: "length cusps = 12 \<or> length cusps = 13" and n: "pname \<in> set (map snd PLANETS)"
  shows "\<exists>r. planet_entry calc_ut cusps ayanamsha JD pconst pname = Inr r"
proof -
  define sid_lon where "sid_lon = normalize_angle (normalize_angle (calc_ut JD pconst) - ayanamsha)"
  obtain i name where s: "sign_from_deg sid_lon = Inr (i, name)" "1 \<le> i" "i \<le> 12"
    using sign_from_deg_total by blast
  obtain v where v: "py_dict_getitem SIGN_RULER i = Inr v" using sign_ruler_total [OF s(2,3)] by blast
  define sz :: real where "sz = 360 / 27"
  obtain k nm lord charan pos where
    g: "get_nak_charan_and_pos sid_lon = Inr (k, nm, lord, charan, pos, sz)"
       "0 \<le> pos" "pos < sz" "lord \<in> set VIM_ORDER"
    unfolding sz_def using get_nak_total by blast
  obtain sub_lords f where
    f: "find_sub_lord_recursive pos sz lord 3 = Inr sub_lords" "sub_lord_fields sub_lords = Inr f"
    using sub_lords_total [OF g(2,3,4) [unfolded sz_def]] unfolding sz_def by blast
  obtain cl where cl: "cusp_list_of cusps = Inr cl" "length cl = 12"
    using cusp_list_of_total [OF c] by blast
  obtain pid where pid: "py_list_index (map snd PLANETS) pname = Inr pid"
    using py_list_index_mem [OF n] by blast
  obtain hl where hl: "house_lord_of ayanamsha cl (locate_house ayanamsha cl sid_lon) = Inr hl"
    using house_lord_of_total [OF cl(2)] by blast
  show ?thesis
    unfolding planet_entry_def Let_def sid_lon_def [symmetric]
    by (simp add: s(1) v g(1) f cl(1) pid hl bind_err_def split: prod.splits)
qed

lemma ketu_entry_total:
  assumes c: "length cusps = 12 \<or> length cusps = 13"
  shows "\<exists>r. ketu_entry cusps ayanamsha rahu = Inr r"
proof -
  define sid_lon where "sid_lon = normalize_angle (full_degree rahu + 180)"
  obtain i name where s: "sign_from_deg sid_lon = Inr (i, name)" "1 \<le> i" "i \<le> 12"
    using sign_from_deg_total by blast
  obtain v where v: "py_dict_getitem SIGN_RULER i = Inr v" using sign_ruler_total [OF s(2,3)] by blast
  define sz :: real where "sz = 360 / 27"
  obtain k nm lord charan pos where
    g: "get_nak_charan_and_pos sid_lon = Inr (k, nm, lord, charan, pos, sz)"
       "0 \<le> pos" "pos < sz" "lord \<in> set VIM_ORDER"
    unfolding sz_def using get_nak_total by blast
  obtain sub_lords f where
    f: "find_sub_lord_recursive pos sz lord 3 = Inr sub_lords" "sub_lord_fields sub_lords = Inr f"
    using sub_lords_total [OF g(2,3,4) [unfolded sz_def]] unfolding sz_def by blast
  obtain cl where cl: "cusp_list_of cusps = Inr cl" "length cl = 12"
    using cusp_list_of_total [OF c] by blast
  obtain hl where hl: "house_lord_of ayanamsha cl (locate_house ayanamsha cl sid_lon) = Inr hl"
    using house_lord_of_total [OF cl(2)] by blast
  show ?thesis
    unfolding ketu_entry_def Let_def sid_lon_def [symmetric]
    by (simp add: s(1) v g(1) f cl(1) hl bind_err_def split: prod.splits)
qed

lemma planets_loop_total:
  assumes c: "length cusps = 12 \<or> length cusps = 13"
  shows "set ps \<subseteq> set PLANETS \<Longrightarrow> \<exists>res. planets_loop calc_ut cusps ayanamsha JD ps out = Inr res"
proof (induction ps arbitrary: out)
  case Nil
  then show ?case by simp
next
  case (Cons p ps)
  obtain pconst pname where p: "p = (pconst, pname)" by (cases p) auto
  with Cons.prems have "pname \<in> set (map snd PLANETS)" by force
  from planet_entry_total [OF c this] obtain r where
    r: "planet_entry calc_ut cusps ayanamsha JD pconst pname = Inr r" by blast
  from Cons.prems have "set ps \<subseteq> set PLANETS" by simp
  from Cons.IH [OF this, of "out @ [r]"] show ?case unfolding p by (simp add: r bind_err_def)
qed

text \<open>In exact arithmetic, with 12 or 13 cusps the planet records are always produced.\<close>

lemma compute_kp_planets_total:
  assumes c: "length cusps = 12 \<or> length cusps = 13"
  shows "\<exists>planets. compute_kp_planets calc_ut cusps ayanamsha JD = Inr planets"
proof -
  from planets_loop_total [OF c, of PLANETS] obtain rs where
    rs: "planets_loop calc_ut cusps ayanamsha JD PLANETS [] = Inr rs" by blast
  show ?thesis
  proof (cases "find (\<lambda>p. planet_name p = ''Rahu'') rs")
    case None
    with rs show ?thesis by (simp add: compute_kp_planets_def bind_err_def)
  next
    case (Some rahu)
    from ketu_entry_total [OF c] obtain k where "ketu_entry cusps ayanamsha rahu = Inr k" by blast
    with rs Some show ?thesis by (simp add: compute_kp_planets_def bind_err_def)
  qed
qed

theorem C8_ketu_derived_from_recorded_rahu_witness:
  "\<exists>planets. compute_kp_planets (\<lambda>jd p. 40 * real p + 5 - jd / 10)
       [10, 40, 70, 100, 130, 160, 190, 220, 250, 280, 310, 340] 24 1 = Inr planets
   \<and> (\<exists>rahu ketu ketu_sid_lon.
       find (\<lambda>p. planet_name p = ''Rahu'') planets = Some rahu
     \<and> full_degree rahu =
         py_round (normalize_angle (normalize_angle ((\<lambda>jd p. 40 * real p + 5 - jd / 10) 1 10) - 24)) 6
     \<and> last planets = ketu \<and> planet_name ketu = ''Ketu''
     \<and> ketu_sid_lon = normalize_angle (full_degree rahu + 180)
     \<and> full_degree ketu = py_round ketu_sid_lon 6
     \<and> is_retro ketu = is_retro rahu
     \<and> sign_from_deg ketu_sid_lon = Inr (sign_id ketu, sign_name ketu)
     \<and> py_dict_getitem SIGN_RULER (sign_id ketu) = Inr (sign_lord ketu)
     \<and> (\<exists>pos size. get_nak_charan_and_pos ketu_sid_lon =
           Inr (nakshatra_id ketu, nakshatra_name ketu, nakshatra_lord ketu,
                nakshatra_charan ketu, pos, size))
     \<and> (\<exists>cusp_list. cusp_list_of [10, 40, 70, 100, 130, 160, 190, 220, 250, 280, 310, 340]
             = Inr cusp_list
           \<and> house ketu = locate_house 24 cusp_list ketu_sid_lon))"
proof -
  let ?cusps = "[10, 40, 70, 100, 130, 160, 190, 220, 250, 280, 310, 340 :: real]"
  have "length ?cusps = 12 \<or> length ?cusps = 13" by simp
  from compute_kp_planets_total [OF this, of "\<lambda>jd p. 40 * real p + 5 - jd / 10" 24 1]
  obtain planets where
    p: "compute_kp_planets (\<lambda>jd p. 40 * real p + 5 - jd / 10) ?cusps 24 1 = Inr planets"
    by blast
  from C8_ketu_derived_from_recorded_rahu [OF p] p show ?thesis by blast
qed

end
